theory Spec2Isabelle
  imports Complex_Main "HOL-Library.Word" "HOL-Library.Sublist" "HOL-Library.Log_Nat"
begin

section \<open>SurgeryBox firmware: event sequencer and UDP command channel\<close>

text \<open>
  The firmware is a single-threaded Arduino sketch: \<^verbatim>\<open>setup()\<close> runs once, \<^verbatim>\<open>loop()\<close>
  runs forever. Its global variables become one record, every function becomes a function
  on that record. What the board reads from outside (UDP library, encoder, random number
  generator, serial port) is an environment of answer streams; the state holds one cursor
  per stream, so the n-th call of a library routine gets the n-th answer.

  Diagnostic output on the serial console is not part of the model. What the device does
  to the outside (datagrams sent, servo and motor calls) and which datagrams it takes from
  the UDP library are recorded, in order, in the field \<open>trace\<close>.
\<close>

subsection \<open>Data\<close>

type_synonym ip = "32 word"
type_synonym port = "16 word"

text \<open>
  Modelled from the spec: the servo driver (\<^verbatim>\<open>servo_brake.h\<close>) is not among the sources;
  the spec gives the actuator three discrete states.
\<close>

datatype BrakeState = Released | Locked | Weak

datatype event =
    Recv ip port
  | Sent ip port string
  | Servo BrakeState
  | Rewind

text \<open>
  One answer of the UDP library to \<^verbatim>\<open>parsePacket\<close>, \<^verbatim>\<open>remoteIP\<close>, \<^verbatim>\<open>remotePort\<close> and
  \<^verbatim>\<open>read\<close>: the reported packet size (0: nothing pending), the sender, and the bytes
  that \<^verbatim>\<open>read\<close> can deliver.
\<close>

record udp_poll =
  packetSize :: int
  remoteIP :: ip
  remotePort :: port
  payload :: "char list"

record env =
  net :: "nat \<Rightarrow> udp_poll"
  enc :: "nat \<Rightarrow> rat"
  rng :: "nat \<Rightarrow> nat"
  ser :: "nat \<Rightarrow> char list"

record state =
  lastRemoteIp :: ip
  lastRemotePort :: port
  packetBuffer :: "char list"
  distanceArrays :: "rat list list"
  currentArray :: "rat list"
  sequenceRunning :: bool
  serialInputBuffer :: string
  brake :: BrakeState
  trace :: "event list"
  netPos :: nat
  encPos :: nat
  rngPos :: nat
  serPos :: nat
  clock :: nat

text \<open>
  A blocking routine either returns, or is still inside its polling loop when the
  observation ends. The loops poll once per \<^verbatim>\<open>delay(10)\<close>; \<open>clock\<close> counts these delays
  and a horizon \<open>h\<close> bounds them, so every loop is a total function. "Never returns" is
  \<open>Blocked\<close> at every horizon, "returns" is \<open>Done\<close> at some horizon.
\<close>

datatype 'a outcome = Done 'a | Blocked state

fun andThen :: "'a outcome \<Rightarrow> ('a \<Rightarrow> 'b outcome) \<Rightarrow> 'b outcome" where
  "andThen (Done x) f = f x"
| "andThen (Blocked s) f = Blocked s"

fun final :: "state outcome \<Rightarrow> state" where
  "final (Done s) = s"
| "final (Blocked s) = s"

fun returned :: "'a outcome \<Rightarrow> bool" where
  "returned (Done x) = True"
| "returned (Blocked s) = False"

definition NUL :: char where
  "NUL = CHR 0x00"

definition init_state :: state where
  "init_state = \<lparr> lastRemoteIp = 0, lastRemotePort = 0,
     packetBuffer = replicate 255 NUL,
     distanceArrays = replicate 10 (replicate 4 0),
     currentArray = replicate 4 0,
     sequenceRunning = False,
     serialInputBuffer = [],
     brake = Released,
     trace = [],
     netPos = 0, encPos = 0, rngPos = 0, serPos = 0, clock = 0 \<rparr>"

subsection \<open>Library routines\<close>

text \<open>\<^verbatim>\<open>isspace\<close> of the C library and \<^verbatim>\<open>String::trim\<close> of the Arduino core.\<close>

definition isspace :: "char \<Rightarrow> bool" where
  "isspace c = (c = CHR '' '' \<or> c = CHR 0x09 \<or> c = CHR 0x0A \<or> c = CHR 0x0B
                \<or> c = CHR 0x0C \<or> c = CHR 0x0D)"

definition trim :: "string \<Rightarrow> string" where
  "trim xs = rev (dropWhile isspace (rev (dropWhile isspace xs)))"

text \<open>\<^verbatim>\<open>String(const char*)\<close>: the bytes before the first NUL.\<close>

definition cstring :: "char list \<Rightarrow> string" where
  "cstring buf = takeWhile (\<lambda>c. c \<noteq> NUL) buf"

text \<open>\<^verbatim>\<open>delay(10)\<close>.\<close>

definition delay :: "state \<Rightarrow> state" where
  "delay s = s\<lparr>clock := clock s + 1\<rparr>"

text \<open>\<^verbatim>\<open>readDistance()\<close> of the encoder driver, which is not among the sources: an oracle.\<close>

definition readDistance :: "env \<Rightarrow> state \<Rightarrow> rat \<times> state" where
  "readDistance e s = (enc e (encPos s), s\<lparr>encPos := encPos s + 1\<rparr>)"

text \<open>
  \<^verbatim>\<open>random(lo, hi)\<close> of the Arduino core: \<open>lo\<close> when the range is empty, otherwise a
  number of \<open>[lo, hi)\<close> obtained from the next raw value of the generator.
\<close>

definition random :: "env \<Rightarrow> int \<Rightarrow> int \<Rightarrow> state \<Rightarrow> int \<times> state" where
  "random e lo hi s =
     (if lo \<ge> hi then (lo, s)
      else (lo + int (rng e (rngPos s)) mod (hi - lo), s\<lparr>rngPos := rngPos s + 1\<rparr>))"

text \<open>
  Modelled from the spec: \<^verbatim>\<open>servoBrakeLock\<close>, \<^verbatim>\<open>servoBrakeRelease\<close>, \<^verbatim>\<open>servoBrakeWeak\<close>
  (\<^verbatim>\<open>servo_brake.h\<close>) and \<^verbatim>\<open>motorWindBack\<close> (\<^verbatim>\<open>motor.h\<close>) are not among the sources. The
  spec has them set the brake state, respectively start the one-shot rewind.
\<close>

definition servoBrake :: "BrakeState \<Rightarrow> state \<Rightarrow> state" where
  "servoBrake b s = s\<lparr>brake := b, trace := trace s @ [Servo b]\<rparr>"

definition servoBrakeLock :: "state \<Rightarrow> state" where
  "servoBrakeLock = servoBrake Locked"

definition servoBrakeRelease :: "state \<Rightarrow> state" where
  "servoBrakeRelease = servoBrake Released"

definition servoBrakeWeak :: "state \<Rightarrow> state" where
  "servoBrakeWeak = servoBrake Weak"

definition motorWindBack :: "state \<Rightarrow> state" where
  "motorWindBack s = s\<lparr>trace := trace s @ [Rewind]\<rparr>"

subsection \<open>wifi_udp_server.cpp\<close>

text \<open>
  \<^verbatim>\<open>readIncomingUDP\<close>: one poll. The \<^verbatim>\<open>String\<close> of the caller is empty when the routine
  returns false. \<^verbatim>\<open>read\<close> copies at most 254 bytes to the front of the 255-byte buffer and
  the terminator is written only when at least one byte was read.
\<close>

definition readIncomingUDP :: "env \<Rightarrow> state \<Rightarrow> bool \<times> string \<times> state" where
  "readIncomingUDP e s =
     (let p = net e (netPos s);
          s0 = s\<lparr>netPos := netPos s + 1\<rparr>
      in if packetSize p = 0 then (False, [], s0)
         else
           let s1 = s0\<lparr>lastRemoteIp := remoteIP p, lastRemotePort := remotePort p,
                       trace := trace s0 @ [Recv (remoteIP p) (remotePort p)]\<rparr>;
               chunk = take 254 (payload p);
               len = length chunk;
               buf = chunk @ drop len (packetBuffer s1);
               buf' = (if len > 0 then buf[len := NUL] else buf);
               msg = trim (cstring buf')
           in (True, msg, s1\<lparr>packetBuffer := buf'\<rparr>))"

text \<open>
  \<^verbatim>\<open>sendUDPMessage\<close> hands \<^verbatim>\<open>msg.c_str()\<close> to the UDP library, which writes the bytes
  before the first NUL. Sending is fire-and-forget: the attempt is what is recorded.
\<close>

definition sendUDPMessage :: "ip \<Rightarrow> port \<Rightarrow> string \<Rightarrow> state \<Rightarrow> state" where
  "sendUDPMessage a p msg s = s\<lparr>trace := trace s @ [Sent a p (cstring msg)]\<rparr>"

definition sendUDPMessageToLast :: "string \<Rightarrow> state \<Rightarrow> state" where
  "sendUDPMessageToLast msg s =
     (if lastRemoteIp s \<noteq> 0 then sendUDPMessage (lastRemoteIp s) (lastRemotePort s) msg s
      else s)"

function waitForCmd :: "env \<Rightarrow> nat \<Rightarrow> string \<Rightarrow> state \<Rightarrow> state outcome" where
  "waitForCmd e h target s =
     (case readIncomingUDP e s of
        (got, msg, s') \<Rightarrow>
          if got \<and> msg = target then Done s'
          else if h \<le> clock s' then Blocked s'
          else waitForCmd e h target (delay s'))"
  by pat_completeness auto
termination
  by (relation "measure (\<lambda>(e, h, target, s). h - clock s)")
     (auto simp: readIncomingUDP_def delay_def Let_def split: if_splits)

function waitForCmdAny :: "env \<Rightarrow> nat \<Rightarrow> string list \<Rightarrow> state \<Rightarrow> (string \<times> state) outcome" where
  "waitForCmdAny e h targets s =
     (case readIncomingUDP e s of
        (got, msg, s') \<Rightarrow>
          if got \<and> (\<exists>t \<in> set targets. msg = t) then Done (msg, s')
          else if h \<le> clock s' then Blocked s'
          else waitForCmdAny e h targets (delay s'))"
  by pat_completeness auto
termination
  by (relation "measure (\<lambda>(e, h, targets, s). h - clock s)")
     (auto simp: readIncomingUDP_def delay_def Let_def split: if_splits)

text \<open>
  \<^verbatim>\<open>waitShortPull\<close> keeps the first reading in a \<^verbatim>\<open>float\<close> and compares every later reading
  with \<^verbatim>\<open>startDist + 0.5\<close>. The literal is a \<^verbatim>\<open>double\<close>, so the sum is formed in double
  precision and rounded to the nearest double, ties to even. Readings are finite floats,
  each an exact rational; a float converts to a double without change and the comparison
  of two doubles is exact. \<open>binade y\<close> is the exponent \<open>x\<close> with
  \<open>2 powi x \<le> \<bar>y\<bar> < 2 powi (x + 1)\<close>. A double has 53 significant bits, so its spacing in
  that binade is \<open>2 powi (x - 52)\<close>; below \<open>2 powi - 1022\<close> the spacing no longer shrinks. The
  sum of a float and 0.5 is far below the largest double, so overflow is left out.
\<close>

definition binade :: "rat \<Rightarrow> int" where
  "binade y = (if 1 \<le> \<bar>y\<bar> then bitlen \<lfloor>\<bar>y\<bar>\<rfloor> - 1 else - bitlen (\<lceil>1 / \<bar>y\<bar>\<rceil> - 1))"

definition round_to_even :: "rat \<Rightarrow> int" where
  "round_to_even x =
     (let f = \<lfloor>x\<rfloor>; r = x - of_int f
      in if r < 1 / 2 then f else if 1 / 2 < r then f + 1 else if even f then f else f + 1)"

definition round_double :: "rat \<Rightarrow> rat" where
  "round_double y =
     (if y = 0 then 0
      else let q = 2 powi (max (binade y) (- 1022) - 52)
           in of_int (round_to_even (y / q)) * q)"

function waitShortPull_loop :: "env \<Rightarrow> nat \<Rightarrow> rat \<Rightarrow> state \<Rightarrow> state outcome" where
  "waitShortPull_loop e h startDist s =
     (case readDistance e s of
        (d, s') \<Rightarrow>
          if d < round_double (startDist + 1 / 2) then
            (if h \<le> clock s' then Blocked s' else waitShortPull_loop e h startDist (delay s'))
          else Done s')"
  by pat_completeness auto
termination
  by (relation "measure (\<lambda>(e, h, startDist, s). h - clock s)")
     (auto simp: readDistance_def delay_def)

definition waitShortPull :: "env \<Rightarrow> nat \<Rightarrow> state \<Rightarrow> state outcome" where
  "waitShortPull e h s =
     (case readDistance e s of (startDist, s') \<Rightarrow> waitShortPull_loop e h startDist s')"

subsection \<open>main.cpp: the event sequencer\<close>

text \<open>\<^verbatim>\<open>a[i][j] = v\<close> on a two-dimensional array.\<close>

definition store2 :: "rat list list \<Rightarrow> nat \<Rightarrow> nat \<Rightarrow> rat \<Rightarrow> rat list list" where
  "store2 a i j v = a[i := (a ! i)[j := v]]"

text \<open>The body of the loop of \<^verbatim>\<open>eventsInit\<close>, for row \<open>i\<close>.\<close>

definition eventsInit_body :: "env \<Rightarrow> nat \<Rightarrow> state \<Rightarrow> state" where
  "eventsInit_body e i s =
     (case random e 5 15 s of (r0, s) \<Rightarrow>
      let s = s\<lparr>distanceArrays := store2 (distanceArrays s) i 0 (of_int r0)\<rparr> in
      case random e 15 25 s of (r1, s) \<Rightarrow>
      let s = s\<lparr>distanceArrays := store2 (distanceArrays s) i 1 (of_int r1)\<rparr> in
      case random e 25 35 s of (r2, s) \<Rightarrow>
      let s = s\<lparr>distanceArrays := store2 (distanceArrays s) i 2 (of_int r2)\<rparr> in
      case random e 35 45 s of (r3, s) \<Rightarrow>
      s\<lparr>distanceArrays := store2 (distanceArrays s) i 3 (of_int r3)\<rparr>)"

definition eventsInit :: "env \<Rightarrow> state \<Rightarrow> state" where
  "eventsInit e s = fold (eventsInit_body e) [0..<10] s"

definition startEventSequence :: "env \<Rightarrow> state \<Rightarrow> state" where
  "startEventSequence e s =
     (case random e 0 10 s of (idx, s) \<Rightarrow>
      let s = fold (\<lambda>i s. s\<lparr>currentArray :=
                      (currentArray s)[i := distanceArrays s ! nat idx ! i]\<rparr>) [0..<4] s
      in s\<lparr>sequenceRunning := True\<rparr>)"

text \<open>The third and fourth \<^verbatim>\<open>if\<close> of \<^verbatim>\<open>processEncoderEvents\<close>, each with a blocking wait.\<close>

definition highDampStage :: "env \<Rightarrow> nat \<Rightarrow> rat \<Rightarrow> state \<Rightarrow> state outcome" where
  "highDampStage e h dst s =
     (if dst \<ge> currentArray s ! 2 then
        andThen (waitForCmd e h ''OK'' (servoBrakeLock (sendUDPMessageToLast ''HighDamp'' s)))
          (\<lambda>s. Done (servoBrakeRelease s))
      else Done s)"

definition lowDampStage :: "env \<Rightarrow> nat \<Rightarrow> rat \<Rightarrow> state \<Rightarrow> state outcome" where
  "lowDampStage e h dst s =
     (if dst \<ge> currentArray s ! 3 then
        andThen (waitForCmdAny e h [''OK1'', ''Continue'']
                   (servoBrakeWeak (sendUDPMessageToLast ''LowDamp'' s)))
          (\<lambda>(cmd, s).
             if cmd = ''OK1'' then Done (servoBrakeRelease s)
             else if cmd = ''Continue'' then
               andThen (waitShortPull e h s) (\<lambda>s.
               andThen (waitForCmd e h ''OK2'' (sendUDPMessageToLast ''Keep'' s)) (\<lambda>s.
               Done (servoBrakeRelease s)))
             else Done s)
      else Done s)"

definition processEncoderEvents :: "env \<Rightarrow> nat \<Rightarrow> state \<Rightarrow> state outcome" where
  "processEncoderEvents e h s =
     (if \<not> sequenceRunning s then Done s
      else
        case readDistance e s of (dst, s) \<Rightarrow>
        let s = (if dst \<ge> currentArray s ! 0 then sendUDPMessageToLast ''Pain'' s else s);
            s = (if dst \<ge> currentArray s ! 1 then sendUDPMessageToLast ''Pain2'' s else s)
        in andThen (highDampStage e h dst s) (lowDampStage e h dst))"

subsection \<open>wifi_udp_server.cpp: the dispatcher\<close>

definition handleUDPMessages :: "env \<Rightarrow> state \<Rightarrow> state" where
  "handleUDPMessages e s =
     (case readIncomingUDP e s of
        (got, msg, s) \<Rightarrow>
          if \<not> got then s
          else
            let s = sendUDPMessageToLast msg s in
            if msg = ''Start'' then
              sendUDPMessageToLast ''ACK: Start'' (startEventSequence e s)
            else if msg = ''Stop'' then
              sendUDPMessageToLast ''ACK: Stop'' (servoBrakeLock s)
            else if msg = ''Winding'' then
              sendUDPMessageToLast ''ACK: Winding'' (motorWindBack s)
            else sendUDPMessageToLast (''ACK: '' @ msg) s)"

subsection \<open>main.cpp: the serial injector and the sketch\<close>

text \<open>One round of the \<^verbatim>\<open>while (Serial.available())\<close> loop, for the character read.\<close>

definition signalTester_char :: "char \<Rightarrow> state \<Rightarrow> state" where
  "signalTester_char c s =
     (if c = CHR 0x0A \<or> c = CHR 0x0D then
        (if length (serialInputBuffer s) > 0 then
           (sendUDPMessageToLast (serialInputBuffer s) s)\<lparr>serialInputBuffer := []\<rparr>
         else s)
      else s\<lparr>serialInputBuffer := serialInputBuffer s @ [c]\<rparr>)"

definition signalTesterLoop :: "env \<Rightarrow> state \<Rightarrow> state" where
  "signalTesterLoop e s =
     fold signalTester_char (ser e (serPos s)) (s\<lparr>serPos := serPos s + 1\<rparr>)"

text \<open>
  \<^verbatim>\<open>setup()\<close> and \<^verbatim>\<open>loop()\<close>. Of the initialisers called by \<^verbatim>\<open>setup()\<close> only \<^verbatim>\<open>eventsInit\<close>
  touches the variables of the model.
\<close>

definition setup_main :: "env \<Rightarrow> state" where
  "setup_main e = eventsInit e init_state"

definition loop :: "env \<Rightarrow> nat \<Rightarrow> state \<Rightarrow> state outcome" where
  "loop e h s =
     andThen (processEncoderEvents e h (handleUDPMessages e s))
       (\<lambda>s. Done (signalTesterLoop e s))"

fun run :: "env \<Rightarrow> nat \<Rightarrow> nat \<Rightarrow> state \<Rightarrow> state outcome" where
  "run e h 0 s = Done s"
| "run e h (Suc n) s = andThen (loop e h s) (run e h n)"

subsection \<open>Notions used in the statements\<close>

text \<open>The state after one poll, the text that poll yields, and the state after one reading
  of the encoder.\<close>

definition polled :: "env \<Rightarrow> state \<Rightarrow> state" where
  "polled e s = snd (snd (readIncomingUDP e s))"

definition heard :: "env \<Rightarrow> state \<Rightarrow> string" where
  "heard e s = fst (snd (readIncomingUDP e s))"

definition stepped :: "env \<Rightarrow> state \<Rightarrow> state" where
  "stepped e s = snd (readDistance e s)"

text \<open>The state after \<open>k\<close> rounds of a polling loop that did not return.\<close>

fun polls :: "env \<Rightarrow> nat \<Rightarrow> state \<Rightarrow> state" where
  "polls e 0 s = s"
| "polls e (Suc k) s = polls e k (delay (polled e s))"

text \<open>The next poll yields a datagram whose text is the target, or one of the targets.\<close>

definition arrives :: "env \<Rightarrow> string \<Rightarrow> state \<Rightarrow> bool" where
  "arrives e target s = (case readIncomingUDP e s of (got, msg, s') \<Rightarrow> got \<and> msg = target)"

definition arrivesAny :: "env \<Rightarrow> string list \<Rightarrow> state \<Rightarrow> bool" where
  "arrivesAny e targets s =
     (case readIncomingUDP e s of (got, msg, s') \<Rightarrow> got \<and> (\<exists>t \<in> set targets. msg = t))"

text \<open>
  The \<open>k\<close>-th reading after the one \<^verbatim>\<open>waitShortPull\<close> starts from is at least the double
  that \<^verbatim>\<open>startDist + 0.5\<close> yields.
\<close>

definition pulled :: "env \<Rightarrow> state \<Rightarrow> nat \<Rightarrow> bool" where
  "pulled e s k \<longleftrightarrow> round_double (enc e (encPos s) + 1 / 2) \<le> enc e (encPos s + 1 + k)"

text \<open>
  The state in which the third stage of a tick is entered (the reading taken, \<^verbatim>\<open>Pain\<close> and
  \<^verbatim>\<open>Pain2\<close> sent where due), and the states in which the waits of the third and fourth
  stage start.
\<close>

definition painStage :: "env \<Rightarrow> state \<Rightarrow> state" where
  "painStage e s =
     (case readDistance e s of (dst, s) \<Rightarrow>
        let s = (if dst \<ge> currentArray s ! 0 then sendUDPMessageToLast ''Pain'' s else s)
        in (if dst \<ge> currentArray s ! 1 then sendUDPMessageToLast ''Pain2'' s else s))"

definition highDampArmed :: "state \<Rightarrow> state" where
  "highDampArmed s = servoBrakeLock (sendUDPMessageToLast ''HighDamp'' s)"

definition lowDampArmed :: "state \<Rightarrow> state" where
  "lowDampArmed s = servoBrakeWeak (sendUDPMessageToLast ''LowDamp'' s)"

text \<open>The row of the bank that the next \<^verbatim>\<open>random(0,10)\<close> selects.\<close>

definition picked :: "env \<Rightarrow> state \<Rightarrow> nat" where
  "picked e s = rng e (rngPos s) mod 10"

text \<open>A row of the bank with its four entries in the ranges of \<^verbatim>\<open>eventsInit\<close>; the shape of
  the bank.\<close>

definition in_ranges :: "rat list \<Rightarrow> bool" where
  "in_ranges row \<longleftrightarrow>
     length row = 4 \<and> 5 \<le> row ! 0 \<and> row ! 0 < 15 \<and> 15 \<le> row ! 1 \<and> row ! 1 < 25
     \<and> 25 \<le> row ! 2 \<and> row ! 2 < 35 \<and> 35 \<le> row ! 3 \<and> row ! 3 < 45"

definition bank_shape :: "rat list list \<Rightarrow> bool" where
  "bank_shape b \<longleftrightarrow> length b = 10 \<and> list_all (\<lambda>row. length row = 4) b"

text \<open>The datagrams sent, in order, among the events of a trace.\<close>

fun sends :: "event list \<Rightarrow> (ip \<times> port \<times> string) list" where
  "sends [] = []"
| "sends (Sent a p m # es) = (a, p, m) # sends es"
| "sends (Recv a p # es) = sends es"
| "sends (Servo b # es) = sends es"
| "sends (Rewind # es) = sends es"

text \<open>
  \<open>addressed ep es\<close>: every datagram sent in \<open>es\<close> goes to the sender of the latest packet
  received before it in \<open>es\<close>, or to \<open>ep\<close> when there is none. \<open>tracked ep es\<close> is the sender
  of the latest packet received in \<open>es\<close>, or \<open>ep\<close>.
\<close>

fun addressed :: "ip \<times> port \<Rightarrow> event list \<Rightarrow> bool" where
  "addressed ep [] = True"
| "addressed ep (Recv a p # es) = addressed (a, p) es"
| "addressed ep (Sent a p m # es) = ((a, p) = ep \<and> addressed ep es)"
| "addressed ep (Servo b # es) = addressed ep es"
| "addressed ep (Rewind # es) = addressed ep es"

fun tracked :: "ip \<times> port \<Rightarrow> event list \<Rightarrow> ip \<times> port" where
  "tracked ep [] = ep"
| "tracked ep (Recv a p # es) = tracked (a, p) es"
| "tracked ep (Sent a p m # es) = tracked ep es"
| "tracked ep (Servo b # es) = tracked ep es"
| "tracked ep (Rewind # es) = tracked ep es"

definition endpoint :: "state \<Rightarrow> ip \<times> port" where
  "endpoint s = (lastRemoteIp s, lastRemotePort s)"


text \<open>The receive buffer after \<^verbatim>\<open>read\<close> delivered \<open>chunk\<close> and the terminator was written.\<close>

definition refill :: "char list \<Rightarrow> char list \<Rightarrow> char list" where
  "refill chunk buf =
     (if length chunk > 0 then (chunk @ drop (length chunk) buf)[length chunk := NUL]
      else chunk @ drop (length chunk) buf)"

text \<open>
  A predicate on states is stable when every elementary step of the firmware keeps it.
  Every routine is a composition of these steps.
\<close>

definition stable :: "env \<Rightarrow> (state \<Rightarrow> bool) \<Rightarrow> bool" where
  "stable e P \<longleftrightarrow>
     (\<forall>s. P s \<longrightarrow>
        P (polled e s) \<and> P (delay s) \<and> P (stepped e s)
        \<and> (\<forall>m. P (sendUDPMessageToLast m s)) \<and> (\<forall>b. P (servoBrake b s))
        \<and> P (motorWindBack s) \<and> P (startEventSequence e s)
        \<and> (\<forall>x. P (s\<lparr>serialInputBuffer := x\<rparr>)) \<and> P (s\<lparr>serPos := serPos s + 1\<rparr>))"

subsection \<open>Concrete environments and states\<close>

text \<open>A finite script of answers, followed by a default answer forever.\<close>

definition feed :: "'a \<Rightarrow> 'a list \<Rightarrow> nat \<Rightarrow> 'a" where
  "feed d xs n = (if n < length xs then xs ! n else d)"

definition nopkt :: udp_poll where
  "nopkt = \<lparr>packetSize = 0, remoteIP = 0, remotePort = 0, payload = []\<rparr>"

definition pkt :: "ip \<Rightarrow> port \<Rightarrow> string \<Rightarrow> udp_poll" where
  "pkt a p m = \<lparr>packetSize = int (length m), remoteIP = a, remotePort = p, payload = m\<rparr>"

text \<open>Nothing ever arrives; a single \<^verbatim>\<open>Stop\<close>.\<close>

definition quiet :: env where
  "quiet = \<lparr>net = (\<lambda>n. nopkt), enc = (\<lambda>n. 0), rng = (\<lambda>n. 0), ser = (\<lambda>n. [])\<rparr>"

definition stop_env :: env where
  "stop_env = \<lparr>net = feed nopkt [pkt 7 9 ''Stop''], enc = (\<lambda>n. 50), rng = (\<lambda>n. 0),
     ser = (\<lambda>n. [])\<rparr>"

text \<open>Decoys, then the target with a trailing newline.\<close>

definition decoys :: env where
  "decoys = \<lparr>net = feed nopkt [pkt 7 9 ''OK1'', nopkt, pkt 7 9 '' Stop'', pkt 8 9 ''ok'',
                 pkt 7 9 (''OK'' @ [CHR 0x0A])],
     enc = (\<lambda>n. 0), rng = (\<lambda>n. 0), ser = (\<lambda>n. [])\<rparr>"

text \<open>A datagram, then a packet reported with size 1 from which no byte can be read.\<close>

definition residue_env :: env where
  "residue_env = \<lparr>net = feed nopkt [pkt 7 9 ''Start'',
       \<lparr>packetSize = 1, remoteIP = 8, remotePort = 5, payload = []\<rparr>],
     enc = (\<lambda>n. 0), rng = (\<lambda>n. 0), ser = (\<lambda>n. [])\<rparr>"

text \<open>One acknowledgment; one unrecognised text with surrounding white space.\<close>

definition ack_env :: env where
  "ack_env = \<lparr>net = feed nopkt [pkt 7 9 ''OK''], enc = (\<lambda>n. 0), rng = (\<lambda>n. 0),
     ser = (\<lambda>n. [])\<rparr>"

definition hello_env :: env where
  "hello_env = \<lparr>net = feed nopkt [pkt 7 9 ('' hello'' @ [CHR 0x0D, CHR 0x0A])],
     enc = (\<lambda>n. 0), rng = (\<lambda>n. 0), ser = (\<lambda>n. [])\<rparr>"

text \<open>
  A running sequence with profile [10,20,30,40] and a recorded endpoint; the readings
  5, 12, 22, 32, 42 with the replies \<^verbatim>\<open>OK\<close>, \<^verbatim>\<open>OK\<close>, \<^verbatim>\<open>OK1\<close>; a constant reading of 12.
\<close>

definition demo_state :: state where
  "demo_state = init_state\<lparr>lastRemoteIp := 7, lastRemotePort := 9,
     currentArray := [10, 20, 30, 40], sequenceRunning := True\<rparr>"

definition demo_env :: env where
  "demo_env = \<lparr>net = feed nopkt [nopkt, nopkt, nopkt, nopkt, pkt 7 9 ''OK'', nopkt,
                    pkt 7 9 ''OK'', pkt 7 9 ''OK1''],
     enc = feed 42 [5, 12, 22, 32, 42], rng = (\<lambda>n. 0), ser = (\<lambda>n. [])\<rparr>"

definition pain_env :: env where
  "pain_env = \<lparr>net = (\<lambda>n. nopkt), enc = (\<lambda>n. 12), rng = (\<lambda>n. 0), ser = (\<lambda>n. [])\<rparr>"


text \<open>A bank with ten different rows and a generator that yields 13, then 27.\<close>

definition bank10 :: "rat list list" where
  "bank10 = [[5, 15, 25, 35], [6, 16, 26, 36], [7, 17, 27, 37], [8, 18, 28, 38],
             [9, 19, 29, 39], [10, 20, 30, 40], [11, 21, 31, 41], [12, 22, 32, 42],
             [13, 23, 33, 43], [14, 24, 34, 44]]"

definition pick_env :: env where
  "pick_env = \<lparr>net = (\<lambda>n. nopkt), enc = (\<lambda>n. 0), rng = feed 0 [13, 27], ser = (\<lambda>n. [])\<rparr>"

text \<open>
  A tick through all four stages: \<^verbatim>\<open>OK\<close>, \<^verbatim>\<open>Continue\<close>, \<^verbatim>\<open>OK2\<close>, with the readings 42, 42,
  42.25, 42.5.
\<close>

definition tick_env :: env where
  "tick_env = \<lparr>net = feed nopkt [pkt 7 9 ''OK'', pkt 7 9 ''Continue'', pkt 7 9 ''OK2''],
     enc = feed 43 [42, 42, 169 / 4, 85 / 2], rng = (\<lambda>n. 0), ser = (\<lambda>n. [])\<rparr>"

text \<open>A reading of 42 and no datagram, ever.\<close>

definition stuck_env :: env where
  "stuck_env = \<lparr>net = (\<lambda>n. nopkt), enc = (\<lambda>n. 42), rng = (\<lambda>n. 0), ser = (\<lambda>n. [])\<rparr>"

text \<open>A first reading of \<open>2 powi - 60\<close>, then 0.5.\<close>

definition tiny_env :: env where
  "tiny_env = \<lparr>net = (\<lambda>n. nopkt), enc = feed (1 / 2) [1 / 2 ^ 60, 1 / 2], rng = (\<lambda>n. 0),
     ser = (\<lambda>n. [])\<rparr>"

section \<open>Lemmas\<close>

declare waitForCmd.simps [simp del] waitForCmdAny.simps [simp del] waitShortPull_loop.simps [simp del]

subsection \<open>Strings, the receive buffer and one poll\<close>

lemma cstring_front: "cstring (xs @ NUL # ys) = cstring xs"
  by (induction xs) (simp_all add: cstring_def)

lemma cstring_no_NUL: "NUL \<notin> set xs \<Longrightarrow> cstring xs = xs"
  by (auto simp: cstring_def takeWhile_eq_all_conv)

lemma NUL_cstring: "NUL \<notin> set (cstring xs)"
  by (auto simp: cstring_def dest: set_takeWhileD)

lemma set_trim: "set (trim xs) \<subseteq> set xs"
  by (auto simp: trim_def dest!: set_dropWhileD)

lemma cstring_literals [simp]:
  "cstring ''Start'' = ''Start''" "cstring ''Stop'' = ''Stop''" "cstring ''Winding'' = ''Winding''"
  "cstring ''ACK: Start'' = ''ACK: Start''" "cstring ''ACK: Stop'' = ''ACK: Stop''"
  "cstring ''ACK: Winding'' = ''ACK: Winding''"
  "cstring ''Pain'' = ''Pain''" "cstring ''Pain2'' = ''Pain2''" "cstring ''HighDamp'' = ''HighDamp''"
  "cstring ''LowDamp'' = ''LowDamp''" "cstring ''Keep'' = ''Keep''"
  by (simp_all add: cstring_def NUL_def)

lemma cstring_simps:
  "cstring [] = []" "cstring (c # cs) = (if c = NUL then [] else c # cstring cs)"
  by (simp_all add: cstring_def)

lemma buffer_after_read:
  assumes "length buf = 255" "chunk = take 254 pl" "chunk \<noteq> []"
  shows "(chunk @ drop (length chunk) buf)[length chunk := NUL]
           = chunk @ NUL # drop (Suc (length chunk)) buf"
proof -
  have "length chunk < length buf" using assms by simp
  then have "drop (length chunk) buf = buf ! length chunk # drop (Suc (length chunk)) buf"
    by (simp add: Cons_nth_drop_Suc)
  then show ?thesis by (simp add: list_update_append)
qed

lemma length_refill [simp]: "length chunk \<le> length buf \<Longrightarrow> length (refill chunk buf) = length buf"
  by (simp add: refill_def)

lemma cstring_refill [simp]:
  "chunk \<noteq> [] \<Longrightarrow> length chunk < length buf \<Longrightarrow> cstring (refill chunk buf) = cstring chunk"
proof -
  assume a: "chunk \<noteq> []" "length chunk < length buf"
  then have "drop (length chunk) buf = buf ! length chunk # drop (Suc (length chunk)) buf"
    by (simp add: Cons_nth_drop_Suc)
  then show ?thesis using a by (simp add: refill_def list_update_append cstring_front)
qed

lemma readIncomingUDP_eval:
  "readIncomingUDP e s =
     (if packetSize (net e (netPos s)) = 0 then (False, [], s\<lparr>netPos := netPos s + 1\<rparr>)
      else (True, trim (cstring (refill (take 254 (payload (net e (netPos s)))) (packetBuffer s))),
            s\<lparr>netPos := netPos s + 1,
              lastRemoteIp := remoteIP (net e (netPos s)),
              lastRemotePort := remotePort (net e (netPos s)),
              trace := trace s @ [Recv (remoteIP (net e (netPos s))) (remotePort (net e (netPos s)))],
              packetBuffer := refill (take 254 (payload (net e (netPos s)))) (packetBuffer s)\<rparr>))"
  by (simp add: readIncomingUDP_def refill_def Let_def)

lemma readIncomingUDP_parts:
  "readIncomingUDP e s = (packetSize (net e (netPos s)) \<noteq> 0, heard e s, polled e s)"
  by (simp add: heard_def polled_def readIncomingUDP_def Let_def)

lemma polled_frame:
  "packetSize (net e (netPos s)) \<noteq> 0 \<Longrightarrow>
     trace (polled e s) = trace s @ [Recv (remoteIP (net e (netPos s))) (remotePort (net e (netPos s)))]
     \<and> lastRemoteIp (polled e s) = remoteIP (net e (netPos s))
     \<and> lastRemotePort (polled e s) = remotePort (net e (netPos s))"
  "packetSize (net e (netPos s)) = 0 \<Longrightarrow> polled e s = s\<lparr>netPos := netPos s + 1\<rparr>"
  by (simp_all add: polled_def readIncomingUDP_def Let_def)

lemma heard_payload:
  assumes "packetSize (net e (netPos s)) \<noteq> 0" "payload (net e (netPos s)) \<noteq> []"
      "length (packetBuffer s) = 255"
  shows "heard e s = trim (cstring (take 254 (payload (net e (netPos s)))))"
  using assms buffer_after_read[of "packetBuffer s" "take 254 (payload (net e (netPos s)))" "payload (net e (netPos s))"]
  by (simp add: heard_def readIncomingUDP_def Let_def cstring_front)

lemma heard_buffer:
  "fst (readIncomingUDP e s) \<Longrightarrow> heard e s = trim (cstring (packetBuffer (polled e s)))"
  by (simp add: heard_def polled_def readIncomingUDP_def Let_def split: if_splits)

lemma NUL_heard: "NUL \<notin> set (heard e s)"
proof -
  have "heard e s = [] \<or> (\<exists>b. heard e s = trim (cstring b))"
    by (simp add: heard_def readIncomingUDP_def Let_def) blast
  then show ?thesis using NUL_cstring set_trim by fastforce
qed

lemma cstring_heard [simp]: "cstring (heard e s) = heard e s"
  by (rule cstring_no_NUL[OF NUL_heard])

lemma cstring_ack_heard [simp]: "cstring (''ACK: '' @ heard e s) = ''ACK: '' @ heard e s"
  by (rule cstring_no_NUL) (use NUL_heard[of e s] in \<open>simp add: NUL_def\<close>)

lemma clock_polled [simp]: "clock (polled e s) = clock s"
  by (simp add: polled_def readIncomingUDP_def Let_def)

lemma clock_delay [simp]: "clock (delay s) = clock s + 1"
  by (simp add: delay_def)

lemma clock_polls [simp]: "clock (polls e k s) = clock s + k"
  by (induction k arbitrary: s) simp_all

lemma buffer_length_polled [simp]:
  "length (packetBuffer s) = 255 \<Longrightarrow> length (packetBuffer (polled e s)) = 255"
  by (simp add: polled_def readIncomingUDP_def Let_def)

lemma buffer_length_delay [simp]: "packetBuffer (delay s) = packetBuffer s"
  by (simp add: delay_def)

lemma buffer_length_polls [simp]:
  "length (packetBuffer s) = 255 \<Longrightarrow> length (packetBuffer (polls e k s)) = 255"
  by (induction k arbitrary: s) simp_all

lemma netPos_polled [simp]: "netPos (polled e s) = netPos s + 1"
  by (simp add: polled_def readIncomingUDP_def Let_def)

lemma netPos_delay [simp]: "netPos (delay s) = netPos s"
  by (simp add: delay_def)

lemma netPos_polls [simp]: "netPos (polls e k s) = netPos s + k"
  by (induction k arbitrary: s) simp_all

lemma arrives_heard:
  "arrives e t s \<longleftrightarrow> packetSize (net e (netPos s)) \<noteq> 0 \<and> heard e s = t"
  by (simp add: arrives_def heard_def readIncomingUDP_def Let_def)

lemma arrives_polls:
  assumes "length (packetBuffer s) = 255"
      "packetSize (net e (netPos s + k)) = 0 \<or> payload (net e (netPos s + k)) \<noteq> []"
  shows "arrives e t (polls e k s) \<longleftrightarrow>
           packetSize (net e (netPos s + k)) \<noteq> 0
           \<and> trim (cstring (take 254 (payload (net e (netPos s + k))))) = t"
  using assms heard_payload[of e "polls e k s"] by (auto simp: arrives_heard)

lemma arrivesAny_heard: "arrivesAny e ts s \<Longrightarrow> heard e s \<in> set ts"
  by (auto simp: arrivesAny_def readIncomingUDP_parts)

lemma buf_init: "length (packetBuffer init_state) = 255" "netPos init_state = 0" "clock init_state = 0"
  by (simp_all add: init_state_def)

subsection \<open>Stable predicates pass through every routine\<close>

lemma waitForCmd_final:
  "P s \<Longrightarrow> (\<And>s. P s \<Longrightarrow> P (polled e s)) \<Longrightarrow> (\<And>s. P s \<Longrightarrow> P (delay s))
   \<Longrightarrow> P (final (waitForCmd e h t s))"
proof (induction e h t s rule: waitForCmd.induct)
  case (1 e h target s)
  obtain got msg s' where r: "readIncomingUDP e s = (got, msg, s')"
    by (cases "readIncomingUDP e s") auto
  then have s': "s' = polled e s" by (simp add: polled_def)
  have P': "P s'" using "1.prems"(1,2) s' by simp
  show ?case
  proof (cases "got \<and> msg = target")
    case True
    then show ?thesis using r P' by (subst waitForCmd.simps) auto
  next
    case nomatch: False
    show ?thesis
    proof (cases "h \<le> clock s'")
      case True
      then show ?thesis using r P' nomatch by (subst waitForCmd.simps) auto
    next
      case False
      have "P (final (waitForCmd e h target (delay s')))"
        using "1.IH"[OF r[symmetric] refl nomatch False] "1.prems"(2,3) P' by simp
      then show ?thesis using r nomatch False by (subst waitForCmd.simps) auto
    qed
  qed
qed

lemma waitForCmdAny_final:
  "P s \<Longrightarrow> (\<And>s. P s \<Longrightarrow> P (polled e s)) \<Longrightarrow> (\<And>s. P s \<Longrightarrow> P (delay s))
   \<Longrightarrow> (case waitForCmdAny e h ts s of Done (m, s') \<Rightarrow> P s' | Blocked s' \<Rightarrow> P s')"
proof (induction e h ts s rule: waitForCmdAny.induct)
  case (1 e h targets s)
  obtain got msg s' where r: "readIncomingUDP e s = (got, msg, s')"
    by (cases "readIncomingUDP e s") auto
  then have s': "s' = polled e s" by (simp add: polled_def)
  have P': "P s'" using "1.prems"(1,2) s' by simp
  show ?case
  proof (cases "got \<and> (\<exists>t \<in> set targets. msg = t)")
    case True
    then show ?thesis using r P' by (subst waitForCmdAny.simps) auto
  next
    case nomatch: False
    show ?thesis
    proof (cases "h \<le> clock s'")
      case True
      then show ?thesis using r P' nomatch by (subst waitForCmdAny.simps) auto
    next
      case False
      have "case waitForCmdAny e h targets (delay s') of Done (m, s') \<Rightarrow> P s' | Blocked s' \<Rightarrow> P s'"
        using "1.IH"[OF r[symmetric] refl nomatch False] "1.prems"(2,3) P' by simp
      then show ?thesis using r nomatch False by (subst waitForCmdAny.simps) auto
    qed
  qed
qed

lemma waitShortPull_loop_final:
  "P s \<Longrightarrow> (\<And>s. P s \<Longrightarrow> P (stepped e s)) \<Longrightarrow> (\<And>s. P s \<Longrightarrow> P (delay s))
   \<Longrightarrow> P (final (waitShortPull_loop e h d0 s))"
proof (induction e h d0 s rule: waitShortPull_loop.induct)
  case (1 e h startDist s)
  obtain d s' where r: "readDistance e s = (d, s')"
    by (cases "readDistance e s") auto
  then have s': "s' = stepped e s" by (simp add: stepped_def)
  have P': "P s'" using "1.prems"(1,2) s' by simp
  show ?case
  proof (cases "d < round_double (startDist + 1 / 2)")
    case False
    then show ?thesis using r P' by (subst waitShortPull_loop.simps) simp
  next
    case short: True
    show ?thesis
    proof (cases "h \<le> clock s'")
      case True
      then show ?thesis using r P' short by (subst waitShortPull_loop.simps) simp
    next
      case False
      have "P (final (waitShortPull_loop e h startDist (delay s')))"
        using "1.IH"[OF r[symmetric] short False] "1.prems"(2,3) P' by simp
      then show ?thesis using r short False by (subst waitShortPull_loop.simps) simp
    qed
  qed
qed

lemma waitShortPull_final:
  "P s \<Longrightarrow> (\<And>s. P s \<Longrightarrow> P (stepped e s)) \<Longrightarrow> (\<And>s. P s \<Longrightarrow> P (delay s))
   \<Longrightarrow> P (final (waitShortPull e h s))"
proof -
  assume P: "P s" and st: "\<And>s. P s \<Longrightarrow> P (stepped e s)" and dl: "\<And>s. P s \<Longrightarrow> P (delay s)"
  obtain d s' where r: "readDistance e s = (d, s')"
    by (cases "readDistance e s") auto
  then have "P s'" using st[OF P] by (simp add: stepped_def)
  then have "P (final (waitShortPull_loop e h d s'))"
    using st dl by (rule waitShortPull_loop_final)
  then show ?thesis by (simp add: waitShortPull_def r)
qed

lemma upt4: "[0..<4] = [0, 1, 2, 3::nat]"
  by (simp add: upt_rec)

lemma startEventSequence_eq:
  "startEventSequence e s =
     s\<lparr>rngPos := rngPos s + 1,
       currentArray := (currentArray s)
          [0 := distanceArrays s ! picked e s ! 0, 1 := distanceArrays s ! picked e s ! 1,
           2 := distanceArrays s ! picked e s ! 2, 3 := distanceArrays s ! picked e s ! 3],
       sequenceRunning := True\<rparr>"
  by (simp add: startEventSequence_def random_def upt4 picked_def nat_mod_distrib)

lemma stable_waitForCmd: "stable e P \<Longrightarrow> P s \<Longrightarrow> P (final (waitForCmd e h t s))"
  by (rule waitForCmd_final) (simp_all add: stable_def)

lemma stable_waitForCmdAny:
  "stable e P \<Longrightarrow> P s \<Longrightarrow>
   (case waitForCmdAny e h ts s of Done (m, s') \<Rightarrow> P s' | Blocked s' \<Rightarrow> P s')"
  by (rule waitForCmdAny_final) (simp_all add: stable_def)

lemma stable_waitShortPull: "stable e P \<Longrightarrow> P s \<Longrightarrow> P (final (waitShortPull e h s))"
  by (rule waitShortPull_final) (simp_all add: stable_def)

lemma final_andThen:
  "P (final x) \<Longrightarrow> (\<And>s. x = Done s \<Longrightarrow> P (final (f s))) \<Longrightarrow> P (final (andThen x f))"
  by (cases x) simp_all

lemma stable_send: "stable e P \<Longrightarrow> P s \<Longrightarrow> P (sendUDPMessageToLast m s)"
  by (simp add: stable_def)

lemma stable_servo:
  assumes "stable e P" "P s"
  shows "P (servoBrakeLock s)" "P (servoBrakeRelease s)" "P (servoBrakeWeak s)"
  using assms by (simp_all add: stable_def servoBrakeLock_def servoBrakeRelease_def servoBrakeWeak_def)

lemma stable_highDampStage:
  assumes st: "stable e P" and P: "P s"
  shows "P (final (highDampStage e h dst s))"
proof (cases "currentArray s ! 2 \<le> dst")
  case False
  then show ?thesis using P by (simp add: highDampStage_def)
next
  case True
  let ?w = "waitForCmd e h ''OK'' (servoBrakeLock (sendUDPMessageToLast ''HighDamp'' s))"
  have "P (final ?w)"
    by (intro stable_waitForCmd[OF st] stable_servo[OF st] stable_send[OF st] P)
  then have "P (final (andThen ?w (\<lambda>s. Done (servoBrakeRelease s))))"
    by (cases ?w) (simp_all add: stable_servo[OF st])
  then show ?thesis using True by (simp add: highDampStage_def)
qed

lemma stable_lowDampStage:
  assumes st: "stable e P" and P: "P s"
  shows "P (final (lowDampStage e h dst s))"
proof (cases "currentArray s ! 3 \<le> dst")
  case False
  then show ?thesis using P by (simp add: lowDampStage_def)
next
  case True
  let ?w = "waitForCmdAny e h [''OK1'', ''Continue''] (servoBrakeWeak (sendUDPMessageToLast ''LowDamp'' s))"
  have w: "case ?w of Done (m, s') \<Rightarrow> P s' | Blocked s' \<Rightarrow> P s'"
    by (intro stable_waitForCmdAny[OF st] stable_servo[OF st] stable_send[OF st] P)
  show ?thesis
  proof (cases ?w)
    case (Blocked b)
    then show ?thesis using w True by (simp add: lowDampStage_def)
  next
    case (Done r)
    obtain cmd s4 where r: "r = (cmd, s4)" by (cases r)
    have P4: "P s4" using w Done r by simp
    have cont: "P (final (andThen (waitShortPull e h s4) (\<lambda>s.
               andThen (waitForCmd e h ''OK2'' (sendUDPMessageToLast ''Keep'' s)) (\<lambda>s.
               Done (servoBrakeRelease s)))))"
    proof (rule final_andThen)
      show "P (final (waitShortPull e h s4))" by (rule stable_waitShortPull[OF st P4])
    next
      fix s5 assume "waitShortPull e h s4 = Done s5"
      then have P5: "P s5" using stable_waitShortPull[OF st P4, of h] by simp
      let ?w2 = "waitForCmd e h ''OK2'' (sendUDPMessageToLast ''Keep'' s5)"
      have "P (final ?w2)"
        by (intro stable_waitForCmd[OF st] stable_send[OF st] P5)
      then show "P (final (andThen ?w2 (\<lambda>s. Done (servoBrakeRelease s))))"
        by (cases ?w2) (simp_all add: stable_servo[OF st])
    qed
    show ?thesis using True Done r P4 cont
      by (simp add: lowDampStage_def stable_servo[OF st])
  qed
qed

lemma stable_stages:
  assumes st: "stable e P" and P: "P s"
  shows "P (final (andThen (highDampStage e h d s) (lowDampStage e h d)))"
proof (rule final_andThen)
  show "P (final (highDampStage e h d s))" by (rule stable_highDampStage[OF st P])
next
  fix s3 assume "highDampStage e h d s = Done s3"
  then have "P s3" using stable_highDampStage[OF st P, of h d] by simp
  then show "P (final (lowDampStage e h d s3))" by (rule stable_lowDampStage[OF st])
qed

lemma stable_processEncoderEvents:
  assumes st: "stable e P" and P: "P s"
  shows "P (final (processEncoderEvents e h s))"
proof (cases "sequenceRunning s")
  case False
  then show ?thesis using P by (simp add: processEncoderEvents_def)
next
  case True
  obtain d s0 where r: "readDistance e s = (d, s0)" by (cases "readDistance e s") auto
  then have P0: "P s0" using st P by (auto simp: stable_def stepped_def)
  define s1 where "s1 = (if d \<ge> currentArray s0 ! 0 then sendUDPMessageToLast ''Pain'' s0 else s0)"
  define s2 where "s2 = (if d \<ge> currentArray s1 ! 1 then sendUDPMessageToLast ''Pain2'' s1 else s1)"
  have P1: "P s1" using P0 st by (simp add: s1_def stable_send)
  have P2: "P s2" using P1 st by (simp add: s2_def stable_send)
  have eq: "processEncoderEvents e h s = andThen (highDampStage e h d s2) (lowDampStage e h d)"
    unfolding s2_def s1_def using True r by (simp add: processEncoderEvents_def Let_def)
  have "P (final (andThen (highDampStage e h d s2) (lowDampStage e h d)))"
  proof (rule final_andThen)
    show "P (final (highDampStage e h d s2))" by (rule stable_highDampStage[OF st P2])
  next
    fix s3 assume "highDampStage e h d s2 = Done s3"
    then have "P s3" using stable_highDampStage[OF st P2, of h d] by simp
    then show "P (final (lowDampStage e h d s3))" by (rule stable_lowDampStage[OF st])
  qed
  then show ?thesis by (simp only: eq)
qed

lemma stable_handleUDPMessages:
  assumes st: "stable e P" and P: "P s"
  shows "P (handleUDPMessages e s)"
proof -
  obtain got msg s' where r: "readIncomingUDP e s = (got, msg, s')"
    by (cases "readIncomingUDP e s") auto
  then have P': "P s'" using st P by (auto simp: stable_def polled_def)
  have Pe: "P (sendUDPMessageToLast msg s')" by (rule stable_send[OF st P'])
  have "P (startEventSequence e (sendUDPMessageToLast msg s'))"
       "P (servoBrakeLock (sendUDPMessageToLast msg s'))"
       "P (motorWindBack (sendUDPMessageToLast msg s'))"
    using st Pe by (simp_all add: stable_def servoBrakeLock_def)
  then have "P (sendUDPMessageToLast ''ACK: Start'' (startEventSequence e (sendUDPMessageToLast msg s')))"
       "P (sendUDPMessageToLast ''ACK: Stop'' (servoBrakeLock (sendUDPMessageToLast msg s')))"
       "P (sendUDPMessageToLast ''ACK: Winding'' (motorWindBack (sendUDPMessageToLast msg s')))"
       "P (sendUDPMessageToLast (''ACK: '' @ msg) (sendUDPMessageToLast msg s'))"
    using Pe by (simp_all only: stable_send[OF st])
  then show ?thesis using P'
    by (simp only: handleUDPMessages_def r Let_def prod.case split: if_split) blast
qed

lemma stable_signalTester_char: "stable e P \<Longrightarrow> P s \<Longrightarrow> P (signalTester_char c s)"
  by (simp add: signalTester_char_def stable_def)

lemma stable_fold_signalTester:
  "stable e P \<Longrightarrow> P s \<Longrightarrow> P (fold signalTester_char cs s)"
  by (induction cs arbitrary: s) (simp_all add: stable_signalTester_char)

lemma stable_signalTesterLoop: "stable e P \<Longrightarrow> P s \<Longrightarrow> P (signalTesterLoop e s)"
proof -
  assume st: "stable e P" and P: "P s"
  then have "P (s\<lparr>serPos := serPos s + 1\<rparr>)" by (simp add: stable_def)
  then show ?thesis
    unfolding signalTesterLoop_def by (rule stable_fold_signalTester[OF st])
qed

lemma stable_loop:
  assumes st: "stable e P" and P: "P s"
  shows "P (final (loop e h s))"
proof -
  let ?t = "processEncoderEvents e h (handleUDPMessages e s)"
  have "P (final ?t)"
    by (intro stable_processEncoderEvents[OF st] stable_handleUDPMessages[OF st] P)
  then show ?thesis
    by (cases ?t) (simp_all add: loop_def stable_signalTesterLoop[OF st])
qed

lemma stable_run: "stable e P \<Longrightarrow> P s \<Longrightarrow> P (final (run e h n s))"
proof (induction n arbitrary: s)
  case 0
  then show ?case by simp
next
  case (Suc n)
  have "P (final (loop e h s))" using Suc.prems by (rule stable_loop)
  then show ?case using Suc by (cases "loop e h s") simp_all
qed

lemmas prim_defs = polled_def readIncomingUDP_def Let_def delay_def stepped_def readDistance_def
  sendUDPMessageToLast_def sendUDPMessage_def servoBrake_def motorWindBack_def
  startEventSequence_eq

lemma stable_bank: "stable e (\<lambda>s. distanceArrays s = b)"
  by (simp add: stable_def prim_defs)

lemma stable_running: "stable e sequenceRunning"
  by (simp add: stable_def prim_defs)

lemma stable_prefix: "stable e (\<lambda>s. prefix t (trace s))"
  by (auto simp: stable_def prim_defs intro: prefix_prefix)

subsection \<open>The polling loops, round by round\<close>

lemma waitForCmd_step:
  "waitForCmd e h t s =
     (if arrives e t s then Done (polled e s)
      else if h \<le> clock s then Blocked (polled e s)
      else waitForCmd e h t (delay (polled e s)))"
proof -
  obtain got msg s' where r: "readIncomingUDP e s = (got, msg, s')"
    by (cases "readIncomingUDP e s") auto
  have s': "s' = polled e s" using r by (simp add: polled_def)
  have c: "clock s' = clock s" unfolding s' by simp
  show ?thesis
    by (subst waitForCmd.simps) (simp add: r arrives_def c s'[symmetric])
qed

lemma waitForCmd_hit:
  "arrives e t (polls e k s) \<Longrightarrow> (\<forall>j<k. \<not> arrives e t (polls e j s)) \<Longrightarrow> clock s + k \<le> h \<or> k = 0
   \<Longrightarrow> waitForCmd e h t s = Done (polled e (polls e k s))"
proof (induction k arbitrary: s)
  case 0
  then show ?case by (subst waitForCmd_step) simp
next
  case (Suc k)
  have no: "\<not> arrives e t s" using Suc.prems(2)[rule_format, of 0] by simp
  have lt: "\<not> h \<le> clock s" using Suc.prems(3) by simp
  have "waitForCmd e h t (delay (polled e s)) = Done (polled e (polls e k (delay (polled e s))))"
  proof (rule Suc.IH)
    show "arrives e t (polls e k (delay (polled e s)))" using Suc.prems(1) by simp
    show "\<forall>j<k. \<not> arrives e t (polls e j (delay (polled e s)))"
      using Suc.prems(2) by (metis Suc_less_eq polls.simps(2))
    show "clock (delay (polled e s)) + k \<le> h \<or> k = 0" using Suc.prems(3) by simp
  qed
  then show ?case using no lt by (subst waitForCmd_step) simp
qed

lemma waitForCmd_miss:
  "(\<forall>j \<le> h - clock s. \<not> arrives e t (polls e j s))
   \<Longrightarrow> waitForCmd e h t s = Blocked (polled e (polls e (h - clock s) s))"
proof (induction "h - clock s" arbitrary: s)
  case 0
  then show ?case by (subst waitForCmd_step) simp
next
  case (Suc n)
  have no: "\<not> arrives e t s" using Suc.prems[rule_format, of 0] by simp
  have lt: "\<not> h \<le> clock s" using Suc.hyps(2) by simp
  have n: "n = h - clock (delay (polled e s))" using Suc.hyps(2) by simp
  have "\<forall>j \<le> h - clock (delay (polled e s)). \<not> arrives e t (polls e j (delay (polled e s)))"
  proof (intro allI impI)
    fix j assume "j \<le> h - clock (delay (polled e s))"
    then have "Suc j \<le> h - clock s" using lt by simp
    then show "\<not> arrives e t (polls e j (delay (polled e s)))"
      using Suc.prems[rule_format, of "Suc j"] by simp
  qed
  then have "waitForCmd e h t (delay (polled e s))
               = Blocked (polled e (polls e (h - clock (delay (polled e s))) (delay (polled e s))))"
    using Suc.hyps(1)[OF n] by simp
  moreover have "polls e (h - clock (delay (polled e s))) (delay (polled e s)) = polls e (h - clock s) s"
    using n Suc.hyps(2) by (metis polls.simps(2))
  ultimately show ?case using no lt by (subst waitForCmd_step) simp
qed

lemma waitForCmd_Done_iff:
  "waitForCmd e h t s = Done s' \<longleftrightarrow>
     (\<exists>k. (clock s + k \<le> h \<or> k = 0) \<and> arrives e t (polls e k s)
          \<and> (\<forall>j<k. \<not> arrives e t (polls e j s)) \<and> s' = polled e (polls e k s))"
proof
  assume d: "waitForCmd e h t s = Done s'"
  have "\<exists>j \<le> h - clock s. arrives e t (polls e j s)"
    using waitForCmd_miss[of h s e t] d by auto
  then obtain j where j: "j \<le> h - clock s" "arrives e t (polls e j s)" by blast
  define k where "k = (LEAST j. arrives e t (polls e j s))"
  have ak: "arrives e t (polls e k s)" unfolding k_def using j(2) by (rule LeastI)
  have kj: "k \<le> j" unfolding k_def using j(2) by (rule Least_le)
  have least: "\<forall>i<k. \<not> arrives e t (polls e i s)"
    unfolding k_def using not_less_Least by blast
  have bound: "clock s + k \<le> h \<or> k = 0" using kj j(1) by auto
  have "waitForCmd e h t s = Done (polled e (polls e k s))"
    using ak least bound by (rule waitForCmd_hit)
  then show "\<exists>k. (clock s + k \<le> h \<or> k = 0) \<and> arrives e t (polls e k s)
          \<and> (\<forall>j<k. \<not> arrives e t (polls e j s)) \<and> s' = polled e (polls e k s)"
    using d ak least bound by auto
next
  assume "\<exists>k. (clock s + k \<le> h \<or> k = 0) \<and> arrives e t (polls e k s)
          \<and> (\<forall>j<k. \<not> arrives e t (polls e j s)) \<and> s' = polled e (polls e k s)"
  then show "waitForCmd e h t s = Done s'" using waitForCmd_hit by blast
qed

lemma waitForCmdAny_step:
  "waitForCmdAny e h ts s =
     (if arrivesAny e ts s then Done (heard e s, polled e s)
      else if h \<le> clock s then Blocked (polled e s)
      else waitForCmdAny e h ts (delay (polled e s)))"
  by (subst waitForCmdAny.simps)
     (simp add: readIncomingUDP_parts arrivesAny_def)

lemma waitForCmdAny_hit:
  "arrivesAny e ts (polls e k s) \<Longrightarrow> (\<forall>j<k. \<not> arrivesAny e ts (polls e j s))
   \<Longrightarrow> clock s + k \<le> h \<or> k = 0
   \<Longrightarrow> waitForCmdAny e h ts s = Done (heard e (polls e k s), polled e (polls e k s))"
proof (induction k arbitrary: s)
  case 0
  then show ?case by (subst waitForCmdAny_step) simp
next
  case (Suc k)
  have no: "\<not> arrivesAny e ts s" using Suc.prems(2)[rule_format, of 0] by simp
  have lt: "\<not> h \<le> clock s" using Suc.prems(3) by simp
  have "waitForCmdAny e h ts (delay (polled e s))
          = Done (heard e (polls e k (delay (polled e s))), polled e (polls e k (delay (polled e s))))"
  proof (rule Suc.IH)
    show "arrivesAny e ts (polls e k (delay (polled e s)))" using Suc.prems(1) by simp
    show "\<forall>j<k. \<not> arrivesAny e ts (polls e j (delay (polled e s)))"
      using Suc.prems(2) by (metis Suc_less_eq polls.simps(2))
    show "clock (delay (polled e s)) + k \<le> h \<or> k = 0" using Suc.prems(3) by simp
  qed
  then show ?case using no lt by (subst waitForCmdAny_step) simp
qed

lemma waitForCmdAny_miss:
  "(\<forall>j \<le> h - clock s. \<not> arrivesAny e ts (polls e j s))
   \<Longrightarrow> waitForCmdAny e h ts s = Blocked (polled e (polls e (h - clock s) s))"
proof (induction "h - clock s" arbitrary: s)
  case 0
  then show ?case by (subst waitForCmdAny_step) simp
next
  case (Suc n)
  have no: "\<not> arrivesAny e ts s" using Suc.prems[rule_format, of 0] by simp
  have lt: "\<not> h \<le> clock s" using Suc.hyps(2) by simp
  have n: "n = h - clock (delay (polled e s))" using Suc.hyps(2) by simp
  have "\<forall>j \<le> h - clock (delay (polled e s)). \<not> arrivesAny e ts (polls e j (delay (polled e s)))"
  proof (intro allI impI)
    fix j assume "j \<le> h - clock (delay (polled e s))"
    then have "Suc j \<le> h - clock s" using lt by simp
    then show "\<not> arrivesAny e ts (polls e j (delay (polled e s)))"
      using Suc.prems[rule_format, of "Suc j"] by simp
  qed
  then have "waitForCmdAny e h ts (delay (polled e s))
               = Blocked (polled e (polls e (h - clock (delay (polled e s))) (delay (polled e s))))"
    using Suc.hyps(1)[OF n] by simp
  moreover have "polls e (h - clock (delay (polled e s))) (delay (polled e s)) = polls e (h - clock s) s"
    using n Suc.hyps(2) by (metis polls.simps(2))
  ultimately show ?case using no lt by (subst waitForCmdAny_step) simp
qed

lemma waitForCmdAny_Done:
  assumes d: "waitForCmdAny e h ts s = Done (m, s')"
  shows "\<exists>k. arrivesAny e ts (polls e k s) \<and> (\<forall>j<k. \<not> arrivesAny e ts (polls e j s))
             \<and> m = heard e (polls e k s) \<and> s' = polled e (polls e k s)"
proof -
  have "\<exists>j \<le> h - clock s. arrivesAny e ts (polls e j s)"
    using waitForCmdAny_miss[of h s e ts] d by auto
  then obtain j where j: "j \<le> h - clock s" "arrivesAny e ts (polls e j s)" by blast
  define k where "k = (LEAST j. arrivesAny e ts (polls e j s))"
  have ak: "arrivesAny e ts (polls e k s)" unfolding k_def using j(2) by (rule LeastI)
  have kj: "k \<le> j" unfolding k_def using j(2) by (rule Least_le)
  have least: "\<forall>i<k. \<not> arrivesAny e ts (polls e i s)"
    unfolding k_def using not_less_Least by blast
  have bound: "clock s + k \<le> h \<or> k = 0" using kj j(1) by auto
  have "waitForCmdAny e h ts s = Done (heard e (polls e k s), polled e (polls e k s))"
    using ak least bound by (rule waitForCmdAny_hit)
  then show ?thesis using d ak least by auto
qed

lemma waitShortPull_loop_step:
  "waitShortPull_loop e h d0 s =
     (if enc e (encPos s) < round_double (d0 + 1 / 2) then
        (if h \<le> clock s then Blocked (s\<lparr>encPos := encPos s + 1\<rparr>)
         else waitShortPull_loop e h d0 (s\<lparr>encPos := encPos s + 1, clock := clock s + 1\<rparr>))
      else Done (s\<lparr>encPos := encPos s + 1\<rparr>))"
  by (subst waitShortPull_loop.simps) (simp add: readDistance_def delay_def)

lemma waitShortPull_loop_hit:
  "round_double (d0 + 1 / 2) \<le> enc e (encPos s + k) \<Longrightarrow> (\<forall>j<k. enc e (encPos s + j) < round_double (d0 + 1 / 2))
   \<Longrightarrow> k = 0 \<or> clock s + k \<le> h
   \<Longrightarrow> waitShortPull_loop e h d0 s = Done (s\<lparr>encPos := encPos s + k + 1, clock := clock s + k\<rparr>)"
proof (induction k arbitrary: s)
  case 0
  then show ?case by (subst waitShortPull_loop_step) simp
next
  case (Suc k)
  let ?s = "s\<lparr>encPos := encPos s + 1, clock := clock s + 1\<rparr>"
  have short: "enc e (encPos s) < round_double (d0 + 1 / 2)" using Suc.prems(2)[rule_format, of 0] by simp
  have lt: "\<not> h \<le> clock s" using Suc.prems(3) by simp
  have "waitShortPull_loop e h d0 ?s = Done (?s\<lparr>encPos := encPos ?s + k + 1, clock := clock ?s + k\<rparr>)"
  proof (rule Suc.IH)
    show "round_double (d0 + 1 / 2) \<le> enc e (encPos ?s + k)" using Suc.prems(1) by simp
    show "\<forall>j<k. enc e (encPos ?s + j) < round_double (d0 + 1 / 2)"
      using Suc.prems(2) by (auto dest: spec[where x = "Suc _"])
    show "k = 0 \<or> clock ?s + k \<le> h" using Suc.prems(3) by simp
  qed
  then show ?case using short lt by (subst waitShortPull_loop_step) simp
qed

lemma waitShortPull_loop_miss:
  "(\<forall>j \<le> h - clock s. enc e (encPos s + j) < round_double (d0 + 1 / 2))
   \<Longrightarrow> waitShortPull_loop e h d0 s
         = Blocked (s\<lparr>encPos := encPos s + (h - clock s) + 1, clock := clock s + (h - clock s)\<rparr>)"
proof (induction "h - clock s" arbitrary: s)
  case 0
  then show ?case by (subst waitShortPull_loop_step) simp
next
  case (Suc n)
  let ?s = "s\<lparr>encPos := encPos s + 1, clock := clock s + 1\<rparr>"
  have short: "enc e (encPos s) < round_double (d0 + 1 / 2)" using Suc.prems[rule_format, of 0] by simp
  have lt: "\<not> h \<le> clock s" using Suc.hyps(2) by simp
  have n: "n = h - clock ?s" using Suc.hyps(2) by simp
  have "\<forall>j \<le> h - clock ?s. enc e (encPos ?s + j) < round_double (d0 + 1 / 2)"
  proof (intro allI impI)
    fix j assume "j \<le> h - clock ?s"
    then have "Suc j \<le> h - clock s" using lt by simp
    then show "enc e (encPos ?s + j) < round_double (d0 + 1 / 2)"
      using Suc.prems[rule_format, of "Suc j"] by simp
  qed
  then have "waitShortPull_loop e h d0 ?s
               = Blocked (?s\<lparr>encPos := encPos ?s + (h - clock ?s) + 1, clock := clock ?s + (h - clock ?s)\<rparr>)"
    using Suc.hyps(1)[OF n] by simp
  then show ?case using short lt n Suc.hyps(2) by (subst waitShortPull_loop_step) simp
qed

lemma waitShortPull_hit:
  assumes "pulled e s k" "\<forall>j<k. \<not> pulled e s j" "k = 0 \<or> clock s + k \<le> h"
  shows "waitShortPull e h s = Done (s\<lparr>encPos := encPos s + k + 2, clock := clock s + k\<rparr>)"
  using waitShortPull_loop_hit[of "enc e (encPos s)" e "s\<lparr>encPos := encPos s + 1\<rparr>" k h] assms
  by (simp add: waitShortPull_def readDistance_def pulled_def not_le)

lemma waitShortPull_miss:
  assumes "\<forall>j \<le> h - clock s. \<not> pulled e s j"
  shows "waitShortPull e h s
           = Blocked (s\<lparr>encPos := encPos s + (h - clock s) + 2, clock := clock s + (h - clock s)\<rparr>)"
  using waitShortPull_loop_miss[of h "s\<lparr>encPos := encPos s + 1\<rparr>" e "enc e (encPos s)"] assms
  by (simp add: waitShortPull_def readDistance_def pulled_def not_le)

subsection \<open>The bank and the active profile\<close>

lemma eventsInit_body_eq:
  assumes "i < length (distanceArrays s)" "length (distanceArrays s ! i) = 4"
  shows "eventsInit_body e i s =
     s\<lparr>rngPos := rngPos s + 4,
       distanceArrays := (distanceArrays s)
         [i := [of_int (5 + int (rng e (rngPos s)) mod 10),
                of_int (15 + int (rng e (rngPos s + 1)) mod 10),
                of_int (25 + int (rng e (rngPos s + 2)) mod 10),
                of_int (35 + int (rng e (rngPos s + 3)) mod 10)]]\<rparr>"
proof -
  obtain a b c d where row: "distanceArrays s ! i = [a, b, c, d]"
    using assms(2) by (auto simp: length_Suc_conv numeral_eq_Suc)
  show ?thesis
    using assms(1) by (simp add: eventsInit_body_def random_def store2_def row numeral_eq_Suc)
qed

lemma in_ranges_row:
  "in_ranges [of_int (5 + int a mod 10), of_int (15 + int b mod 10),
              of_int (25 + int c mod 10), of_int (35 + int d mod 10)]"
proof -
  have "0 \<le> int a mod 10" "int a mod 10 < 10" "0 \<le> int b mod 10" "int b mod 10 < 10"
       "0 \<le> int c mod 10" "int c mod 10 < 10" "0 \<le> int d mod 10" "int d mod 10 < 10"
    by simp_all
  then show ?thesis
    unfolding in_ranges_def
    by (simp add: numeral_eq_Suc del: of_int_add )
qed

lemma bank_shape_update:
  "bank_shape b \<Longrightarrow> length row = 4 \<Longrightarrow> bank_shape (b[i := row])"
  by (auto simp: bank_shape_def list_all_iff dest!: set_update_subset_insert[THEN subsetD])

lemma eventsInit_fold:
  "k \<le> 10 \<Longrightarrow> bank_shape (distanceArrays s) \<Longrightarrow>
   bank_shape (distanceArrays (fold (eventsInit_body e) [0..<k] s))
   \<and> (\<forall>i<k. in_ranges (distanceArrays (fold (eventsInit_body e) [0..<k] s) ! i))"
proof (induction k)
  case 0
  then show ?case by simp
next
  case (Suc k)
  let ?s = "fold (eventsInit_body e) [0..<k] s"
  have IH: "bank_shape (distanceArrays ?s)" "\<forall>i<k. in_ranges (distanceArrays ?s ! i)"
    using Suc by simp_all
  have k: "k < length (distanceArrays ?s)" "length (distanceArrays ?s ! k) = 4"
    using IH(1) Suc.prems(1) by (simp_all add: bank_shape_def list_all_length)
  show ?case
    using IH k
    by (simp add: eventsInit_body_eq[OF k] bank_shape_update in_ranges_row nth_list_update
                  in_ranges_def[of "[_, _, _, _]"] less_Suc_eq)
qed

lemma bank_shape_init: "bank_shape (distanceArrays init_state)"
  by (simp add: bank_shape_def init_state_def list_all_iff)

lemma setup_main_bank:
  "length (distanceArrays (setup_main e)) = 10 \<and> list_all in_ranges (distanceArrays (setup_main e))"
  using eventsInit_fold[of 10 init_state e] bank_shape_init
  by (simp add: setup_main_def eventsInit_def bank_shape_def list_all_length)

lemma copy4:
  "length xs = 4 \<Longrightarrow> length b = 4 \<Longrightarrow>
     xs[0 := b ! 0, Suc 0 := b ! Suc 0, 2 := b ! 2, 3 := b ! 3] = b"
  by (auto simp: length_Suc_conv numeral_eq_Suc)

lemma bank_row: "bank_shape b \<Longrightarrow> i < 10 \<Longrightarrow> length (b ! i) = 4"
  by (simp add: bank_shape_def list_all_length)

lemma start_current:
  assumes "bank_shape (distanceArrays s)" "length (currentArray s) = 4"
  shows "startEventSequence e s =
           s\<lparr>rngPos := rngPos s + 1, currentArray := distanceArrays s ! picked e s,
             sequenceRunning := True\<rparr>"
proof -
  have "picked e s < 10" by (simp add: picked_def)
  then have "length (distanceArrays s ! picked e s) = 4" using assms(1) by (rule bank_row[rotated])
  then show ?thesis using assms(2) by (simp add: startEventSequence_eq copy4)
qed

subsection \<open>Traces\<close>

lemma sends_append [simp]: "sends (xs @ ys) = sends xs @ sends ys"
  by (induction xs rule: sends.induct) simp_all

lemma addressed_append [simp]:
  "addressed ep (xs @ ys) \<longleftrightarrow> addressed ep xs \<and> addressed (tracked ep xs) ys"
  by (induction ep xs rule: addressed.induct) simp_all

lemma tracked_append [simp]: "tracked ep (xs @ ys) = tracked (tracked ep xs) ys"
  by (induction ep xs rule: tracked.induct) simp_all

lemma handle_sends:
  assumes "packetSize (net e (netPos s)) \<noteq> 0" "remoteIP (net e (netPos s)) \<noteq> 0"
  shows "sends (trace (handleUDPMessages e s)) =
           sends (trace s) @ [(remoteIP (net e (netPos s)), remotePort (net e (netPos s)), heard e s),
                              (remoteIP (net e (netPos s)), remotePort (net e (netPos s)),
                               ''ACK: '' @ heard e s)]"
proof -
  note f = polled_frame(1)[OF assms(1)]
  show ?thesis
    using assms f cstring_heard[of e s] cstring_ack_heard[of e s]
    by (simp add: handleUDPMessages_def readIncomingUDP_parts Let_def sendUDPMessageToLast_def
          sendUDPMessage_def startEventSequence_eq servoBrakeLock_def servoBrake_def
          motorWindBack_def del: cstring_heard cstring_ack_heard)
qed

lemma sends_polled: "sends (trace (polled e s)) = sends (trace s)"
  by (simp add: polled_def readIncomingUDP_def Let_def)

lemma sends_waitForCmd: "sends (trace (final (waitForCmd e h t s))) = sends (trace s)"
  by (rule waitForCmd_final[where P = "\<lambda>s'. sends (trace s') = sends (trace s)"])
     (simp_all add: sends_polled delay_def)

lemma sends_waitForCmdAny:
  "(case waitForCmdAny e h ts s of Done (m, s') \<Rightarrow> sends (trace s') = sends (trace s)
    | Blocked s' \<Rightarrow> sends (trace s') = sends (trace s))"
  by (rule waitForCmdAny_final[where P = "\<lambda>s'. sends (trace s') = sends (trace s)"])
     (simp_all add: sends_polled delay_def)




lemma pain_first:
  assumes "sequenceRunning s" "currentArray s ! 0 \<le> enc e (encPos s)"
  shows "prefix (trace s @ (if lastRemoteIp s \<noteq> 0
                           then [Sent (lastRemoteIp s) (lastRemotePort s) ''Pain''] else []))
           (trace (final (processEncoderEvents e h s)))"
proof -
  let ?T = "trace s @ (if lastRemoteIp s \<noteq> 0
                       then [Sent (lastRemoteIp s) (lastRemotePort s) ''Pain''] else [])"
  let ?d = "enc e (encPos s)"
  let ?s1 = "sendUDPMessageToLast ''Pain'' (s\<lparr>encPos := encPos s + 1\<rparr>)"
  let ?s2 = "if currentArray ?s1 ! 1 \<le> ?d then sendUDPMessageToLast ''Pain2'' ?s1 else ?s1"
  have t1: "trace ?s1 = ?T"
    by (simp add: sendUDPMessageToLast_def sendUDPMessage_def)
  have "prefix ?T (trace ?s2)"
    unfolding t1[symmetric] by (simp add: sendUDPMessageToLast_def sendUDPMessage_def)
  then have "prefix ?T (trace (final (andThen (highDampStage e h ?d ?s2) (lowDampStage e h ?d))))"
    by (rule stable_stages[OF stable_prefix])
  moreover have "processEncoderEvents e h s = andThen (highDampStage e h ?d ?s2) (lowDampStage e h ?d)"
    using assms
    by (simp add: processEncoderEvents_def readDistance_def Let_def sendUDPMessageToLast_def
          sendUDPMessage_def)
  ultimately show ?thesis by simp
qed

lemma lowDamp_armed:
  "trace (servoBrakeWeak (sendUDPMessageToLast ''LowDamp'' s)) =
     trace s @ (if lastRemoteIp s \<noteq> 0
                then [Sent (lastRemoteIp s) (lastRemotePort s) ''LowDamp''] else []) @ [Servo Weak]"
  "brake (servoBrakeWeak (sendUDPMessageToLast ''LowDamp'' s)) = Weak"
  by (simp_all add: servoBrakeWeak_def servoBrake_def sendUDPMessageToLast_def sendUDPMessage_def)

lemma lowDamp_prefix:
  assumes True: "currentArray s ! 3 \<le> dst"
  shows "prefix (trace (servoBrakeWeak (sendUDPMessageToLast ''LowDamp'' s)))
     (trace (final (lowDampStage e h dst s)))"
proof -
  let ?sA = "servoBrakeWeak (sendUDPMessageToLast ''LowDamp'' s)"
  let ?P = "\<lambda>t. prefix (trace ?sA) (trace t)"
  have st: "stable e ?P" by (rule stable_prefix)
  have w: "case waitForCmdAny e h [''OK1'', ''Continue''] ?sA of
             Done (m, s') \<Rightarrow> ?P s' | Blocked s' \<Rightarrow> ?P s'"
    by (rule stable_waitForCmdAny[OF st]) simp
  show ?thesis
  proof (cases "waitForCmdAny e h [''OK1'', ''Continue''] ?sA")
    case (Blocked b)
    then show ?thesis using w True by (simp add: lowDampStage_def)
  next
    case (Done r)
    obtain cmd s4 where r: "r = (cmd, s4)" by (cases r)
    have P4: "?P s4" using w Done r by simp
    have cont: "?P (final (andThen (waitShortPull e h s4) (\<lambda>s.
               andThen (waitForCmd e h ''OK2'' (sendUDPMessageToLast ''Keep'' s)) (\<lambda>s.
               Done (servoBrakeRelease s)))))"
    proof (rule final_andThen)
      show "?P (final (waitShortPull e h s4))" by (rule stable_waitShortPull[OF st P4])
    next
      fix s5 assume "waitShortPull e h s4 = Done s5"
      then have P5: "?P s5" using stable_waitShortPull[OF st P4, of h] by simp
      let ?w2 = "waitForCmd e h ''OK2'' (sendUDPMessageToLast ''Keep'' s5)"
      have "?P (final ?w2)"
        by (intro stable_waitForCmd[OF st] stable_send[OF st] P5)
      then show "?P (final (andThen ?w2 (\<lambda>s. Done (servoBrakeRelease s))))"
        by (cases ?w2) (simp_all add: stable_servo[OF st])
    qed
    show ?thesis using True Done r P4 cont stable_servo(2)[OF st P4]
      by (simp add: lowDampStage_def)
  qed
qed

subsection \<open>Evaluation on concrete scripts\<close>

lemma run_numeral: "run e h (numeral k) s = andThen (loop e h s) (run e h (pred_numeral k))"
  by (simp add: numeral_eq_Suc)

lemmas eval_defs = readIncomingUDP_eval init_state_def feed_def pkt_def nopkt_def
  trim_def cstring_simps isspace_def NUL_def delay_def readDistance_def run_numeral
  sendUDPMessageToLast_def sendUDPMessage_def servoBrake_def servoBrakeLock_def
  servoBrakeRelease_def servoBrakeWeak_def motorWindBack_def
  highDampStage_def lowDampStage_def processEncoderEvents_def handleUDPMessages_def
  signalTester_char_def signalTesterLoop_def loop_def Let_def
  waitForCmd.simps waitForCmdAny.simps waitShortPull_loop.simps waitShortPull_def
  startEventSequence_eq picked_def

lemma decoys_arrives:
  "\<not> arrives decoys ''OK'' (polls decoys 0 init_state)"
  "\<not> arrives decoys ''OK'' (polls decoys 1 init_state)"
  "\<not> arrives decoys ''OK'' (polls decoys 2 init_state)"
  "\<not> arrives decoys ''OK'' (polls decoys 3 init_state)"
  "arrives decoys ''OK'' (polls decoys 4 init_state)"
  using arrives_polls[of init_state decoys 0 "''OK''"] arrives_polls[of init_state decoys 1 "''OK''"]
    arrives_polls[of init_state decoys 2 "''OK''"] arrives_polls[of init_state decoys 3 "''OK''"]
    arrives_polls[of init_state decoys 4 "''OK''"]
  by (simp_all add: buf_init decoys_def feed_def pkt_def nopkt_def trim_def cstring_def
        isspace_def NUL_def del: polls.simps)

lemma hello_heard: "heard hello_env init_state = ''hello''"
  using heard_payload[of hello_env init_state]
  by (simp add: buf_init hello_env_def feed_def pkt_def trim_def cstring_def isspace_def NUL_def)

subsection \<open>Rounding to a double\<close>

lemma bitlen_numeral: "bitlen (numeral n) = bitlen (numeral n div 2) + 1"
  by (subst compute_bitlen) simp

lemma bitlen_one: "bitlen 1 = 1"
  by (subst compute_bitlen) simp

lemma floor_rat_numeral_div: "\<lfloor>(numeral a :: rat) / numeral b\<rfloor> = numeral a div numeral b"
  by (metis floor_divide_of_int_eq of_int_numeral)

lemma ceiling_rat_numeral_div: "\<lceil>(numeral a :: rat) / numeral b\<rceil> = - (- numeral a div numeral b)"
  by (metis ceiling_def floor_divide_of_int_eq minus_divide_left of_int_minus of_int_numeral)

lemmas round_eval = binade_def round_to_even_def Let_def bitlen_numeral bitlen_one
  floor_rat_numeral_div ceiling_rat_numeral_div

lemma round_to_even_near: "\<bar>of_int (round_to_even x) - x\<bar> \<le> 1 / 2"
proof -
  have "of_int \<lfloor>x\<rfloor> \<le> x" "x < of_int \<lfloor>x\<rfloor> + 1" by linarith+
  then show ?thesis by (auto simp: round_to_even_def Let_def)
qed

lemma binade_bounds:
  assumes "y \<noteq> 0"
  shows "2 powi binade y \<le> \<bar>y\<bar> \<and> \<bar>y\<bar> < 2 powi (binade y + 1)"
proof (cases "1 \<le> \<bar>y\<bar>")
  case True
  let ?n = "\<lfloor>\<bar>y\<bar>\<rfloor>"
  have n: "0 < ?n" using True by linarith
  have b: "1 \<le> bitlen ?n" using n by (simp add: bitlen_alt_def)
  from bitlen_bounds[OF n] have lo: "2 ^ nat (bitlen ?n - 1) \<le> ?n" and hi: "?n < 2 ^ nat (bitlen ?n)"
    by simp_all
  have "(2::rat) ^ nat (bitlen ?n - 1) = of_int (2 ^ nat (bitlen ?n - 1))" by simp
  also have "\<dots> \<le> of_int ?n" using lo by (simp only: of_int_le_iff)
  also have "\<dots> \<le> \<bar>y\<bar>" by linarith
  finally have 1: "(2::rat) ^ nat (bitlen ?n - 1) \<le> \<bar>y\<bar>" .
  have "?n + 1 \<le> 2 ^ nat (bitlen ?n)" using hi by simp
  then have "(of_int (?n + 1) :: rat) \<le> of_int (2 ^ nat (bitlen ?n))" by (simp only: of_int_le_iff)
  moreover have "\<bar>y\<bar> < of_int (?n + 1)" by linarith
  ultimately have 2: "\<bar>y\<bar> < (2::rat) ^ nat (bitlen ?n)" by simp
  show ?thesis using True b 1 2 by (simp add: binade_def power_int_def)
next
  case False
  let ?z = "1 / \<bar>y\<bar>"
  let ?m = "\<lceil>?z\<rceil> - 1"
  have ypos: "0 < \<bar>y\<bar>" using assms by simp
  have z: "1 < ?z" using False ypos by (simp add: field_simps)
  have m: "0 < ?m" using z by linarith
  have b: "1 \<le> bitlen ?m" using m by (simp add: bitlen_alt_def)
  from bitlen_bounds[OF m] have lo: "2 ^ nat (bitlen ?m - 1) \<le> ?m" and hi: "?m < 2 ^ nat (bitlen ?m)"
    by simp_all
  have "?z \<le> of_int (?m + 1)" by (simp add: le_of_int_ceiling)
  also have "(of_int (?m + 1) :: rat) \<le> of_int (2 ^ nat (bitlen ?m))"
    using hi by (simp only: of_int_le_iff)
  finally have 1: "?z \<le> 2 ^ nat (bitlen ?m)" by simp
  have "(of_int (2 ^ nat (bitlen ?m - 1)) :: rat) \<le> of_int ?m" using lo by (simp only: of_int_le_iff)
  moreover have "of_int ?m < ?z" by linarith
  ultimately have 2: "2 ^ nat (bitlen ?m - 1) < ?z" by simp
  have lo': "inverse 2 ^ nat (bitlen ?m) \<le> \<bar>y\<bar>"
    using 1 ypos by (simp add: field_simps power_inverse)
  have hi': "\<bar>y\<bar> < inverse 2 ^ nat (bitlen ?m - 1)"
    using 2 ypos by (simp add: field_simps power_inverse)
  have e: "nat (bitlen ?m) = Suc (nat (bitlen ?m - 1))" using b by simp
  show ?thesis
  proof (cases "bitlen ?m = 1")
    case True
    then show ?thesis using False lo' hi' by (simp add: binade_def power_int_def)
  next
    case ne: False
    then have "\<not> 0 \<le> - bitlen ?m + 1" using b by simp
    moreover have "nat (bitlen ?m - 1) = nat (- (- bitlen ?m + 1))" by simp
    ultimately show ?thesis using False lo' hi' b
      by (simp add: binade_def power_int_def)
  qed
qed

lemma binade_85: "binade (85 / 2) = 5"
  by (simp add: round_eval)

lemma binade_tiny: "binade (1 / 2 ^ 60 + 1 / 2) = - 1"
  by (simp add: round_eval)

lemma round_double_42_half: "round_double (42 + 1 / 2) = 85 / 2"
proof -
  have "(42::rat) + 1 / 2 = 85 / 2" by simp
  moreover have "(2::rat) powi (max 5 (- 1022) - 52) = 1 / 2 ^ 47"
    by (simp add: power_int_def field_simps)
  ultimately show ?thesis
    by (simp add: round_double_def binade_85) (simp add: round_eval)
qed

lemma round_double_85: "round_double (85 / 2) = 85 / 2"
  using round_double_42_half by simp

lemma round_double_tiny: "round_double (1 / 2 ^ 60 + 1 / 2) = 1 / 2"
proof -
  have q: "(2::rat) powi (max (- 1) (- 1022) - 52) = 1 / 2 ^ 53"
    by (simp add: power_int_def field_simps)
  have "round_double (1 / 2 ^ 60 + 1 / 2)
          = of_int (round_to_even ((1 / 2 ^ 60 + 1 / 2) / (1 / 2 ^ 53))) * (1 / 2 ^ 53)"
    unfolding round_double_def binade_tiny Let_def q by simp
  also have "round_to_even ((1 / 2 ^ 60 + 1 / 2) / (1 / 2 ^ 53)) = 2 ^ 52"
    by (simp add: round_eval)
  finally show ?thesis by simp
qed

lemma round_double_tiny_sum: "round_double (576460752303423489 / 1152921504606846976) = 1 / 2"
  using round_double_tiny by simp

subsection \<open>The stages of a tick\<close>

lemma returned_final: "returned x \<Longrightarrow> x = Done (final x)"
  by (cases x) simp_all

lemma tick_split:
  "sequenceRunning s \<Longrightarrow>
     processEncoderEvents e h s =
       andThen (highDampStage e h (enc e (encPos s)) (painStage e s))
         (lowDampStage e h (enc e (encPos s)))"
  by (simp add: processEncoderEvents_def painStage_def readDistance_def Let_def)

lemma painStage_frame [simp]:
  "currentArray (painStage e s) = currentArray s" "clock (painStage e s) = clock s"
  by (simp_all add: painStage_def readDistance_def Let_def sendUDPMessageToLast_def
        sendUDPMessage_def)

lemma armed_frame [simp]:
  "currentArray (highDampArmed s) = currentArray s" "clock (highDampArmed s) = clock s"
  "currentArray (lowDampArmed s) = currentArray s" "clock (lowDampArmed s) = clock s"
  by (simp_all add: highDampArmed_def lowDampArmed_def servoBrakeLock_def servoBrakeWeak_def
        servoBrake_def sendUDPMessageToLast_def sendUDPMessage_def)

lemma release_frame [simp]:
  "currentArray (servoBrakeRelease s) = currentArray s" "brake (servoBrakeRelease s) = Released"
  "trace (servoBrakeRelease s) = trace s @ [Servo Released]"
  by (simp_all add: servoBrakeRelease_def servoBrake_def)

lemma currentArray_polled [simp]: "currentArray (polled e s) = currentArray s"
  by (simp add: polled_def readIncomingUDP_def Let_def)

lemma currentArray_polls [simp]: "currentArray (polls e k s) = currentArray s"
  by (induction k arbitrary: s) (simp_all add: delay_def)

lemma sends_polls [simp]: "sends (trace (polls e k s)) = sends (trace s)"
  by (induction k arbitrary: s) (simp_all add: delay_def sends_polled)

lemma keep_frame [simp]:
  "clock (sendUDPMessageToLast m s) = clock s"
  "trace (sendUDPMessageToLast ''Keep'' s) =
     trace s @ (if lastRemoteIp s \<noteq> 0 then [Sent (lastRemoteIp s) (lastRemotePort s) ''Keep''] else [])"
  by (simp_all add: sendUDPMessageToLast_def sendUDPMessage_def)

lemma highDamp_skip: "dst < currentArray s ! 2 \<Longrightarrow> highDampStage e h dst s = Done s"
  by (simp add: highDampStage_def)

lemma highDamp_hit:
  assumes "currentArray s ! 2 \<le> dst" "arrives e ''OK'' (polls e k (highDampArmed s))"
      "\<forall>j<k. \<not> arrives e ''OK'' (polls e j (highDampArmed s))" "k = 0 \<or> clock s + k \<le> h"
  shows "highDampStage e h dst s = Done (servoBrakeRelease (polled e (polls e k (highDampArmed s))))"
proof -
  have "waitForCmd e h ''OK'' (highDampArmed s) = Done (polled e (polls e k (highDampArmed s)))"
    using assms(2,3) by (rule waitForCmd_hit) (use assms(4) in auto)
  then show ?thesis using assms(1) by (simp add: highDampStage_def highDampArmed_def)
qed

lemma highDamp_miss:
  assumes "currentArray s ! 2 \<le> dst" "\<forall>j \<le> h - clock s. \<not> arrives e ''OK'' (polls e j (highDampArmed s))"
  shows "highDampStage e h dst s = Blocked (polled e (polls e (h - clock s) (highDampArmed s)))"
proof -
  have "waitForCmd e h ''OK'' (highDampArmed s)
          = Blocked (polled e (polls e (h - clock (highDampArmed s)) (highDampArmed s)))"
    by (rule waitForCmd_miss) (use assms(2) in simp)
  then have "waitForCmd e h ''OK'' (highDampArmed s)
          = Blocked (polled e (polls e (h - clock s) (highDampArmed s)))" by simp
  then show ?thesis using assms(1) by (simp add: highDampStage_def highDampArmed_def)
qed

lemma highDamp_currentArray:
  assumes "highDampStage e h dst s = Done s3"
  shows "currentArray s3 = currentArray s"
proof (cases "currentArray s ! 2 \<le> dst")
  case False
  then show ?thesis using assms by (simp add: highDampStage_def)
next
  case True
  have "currentArray (final (waitForCmd e h ''OK'' (highDampArmed s))) = currentArray s"
    by (rule waitForCmd_final[where P = "\<lambda>t. currentArray t = currentArray s"])
       (simp_all add: delay_def)
  then show ?thesis
    using assms True
    by (cases "waitForCmd e h ''OK'' (highDampArmed s)")
       (auto simp: highDampStage_def highDampArmed_def)
qed

lemma lowDamp_wait_miss:
  assumes "currentArray s ! 3 \<le> dst"
      "\<forall>j \<le> h - clock s. \<not> arrivesAny e [''OK1'', ''Continue''] (polls e j (lowDampArmed s))"
  shows "lowDampStage e h dst s = Blocked (polled e (polls e (h - clock s) (lowDampArmed s)))"
proof -
  have "waitForCmdAny e h [''OK1'', ''Continue''] (lowDampArmed s)
          = Blocked (polled e (polls e (h - clock (lowDampArmed s)) (lowDampArmed s)))"
    by (rule waitForCmdAny_miss) (use assms(2) in simp)
  then have "waitForCmdAny e h [''OK1'', ''Continue''] (lowDampArmed s)
          = Blocked (polled e (polls e (h - clock s) (lowDampArmed s)))" by simp
  then show ?thesis using assms(1) by (simp add: lowDampStage_def lowDampArmed_def)
qed

lemma lowDamp_wait_hit:
  assumes "arrivesAny e [''OK1'', ''Continue''] (polls e k (lowDampArmed s))"
      "\<forall>j<k. \<not> arrivesAny e [''OK1'', ''Continue''] (polls e j (lowDampArmed s))"
      "k = 0 \<or> clock s + k \<le> h"
  shows "waitForCmdAny e h [''OK1'', ''Continue''] (lowDampArmed s)
           = Done (heard e (polls e k (lowDampArmed s)), polled e (polls e k (lowDampArmed s)))"
  using assms(1,2) by (rule waitForCmdAny_hit) (use assms(3) in auto)

lemma lowDamp_OK1:
  assumes "currentArray s ! 3 \<le> dst"
      "waitForCmdAny e h [''OK1'', ''Continue''] (lowDampArmed s) = Done (''OK1'', s4)"
  shows "lowDampStage e h dst s = Done (servoBrakeRelease s4)"
  using assms by (simp add: lowDampStage_def lowDampArmed_def)

lemma lowDamp_Continue:
  assumes "currentArray s ! 3 \<le> dst"
      "waitForCmdAny e h [''OK1'', ''Continue''] (lowDampArmed s) = Done (''Continue'', s4)"
  shows "lowDampStage e h dst s =
           andThen (waitShortPull e h s4) (\<lambda>s.
           andThen (waitForCmd e h ''OK2'' (sendUDPMessageToLast ''Keep'' s)) (\<lambda>s.
           Done (servoBrakeRelease s)))"
  using assms by (simp add: lowDampStage_def lowDampArmed_def)

lemma lowDamp_keep:
  assumes reach: "currentArray s ! 3 \<le> dst"
    and w: "waitForCmdAny e h [''OK1'', ''Continue''] (lowDampArmed s) = Done (''Continue'', s4)"
    and p: "pulled e s4 n \<and> (\<forall>j<n. \<not> pulled e s4 j) \<and> (n = 0 \<or> clock s4 + n \<le> h)"
  shows "lowDampStage e h dst s =
           andThen (waitForCmd e h ''OK2'' (sendUDPMessageToLast ''Keep''
                      (s4\<lparr>encPos := encPos s4 + n + 2, clock := clock s4 + n\<rparr>)))
             (\<lambda>s. Done (servoBrakeRelease s))"
proof -
  have "waitShortPull e h s4 = Done (s4\<lparr>encPos := encPos s4 + n + 2, clock := clock s4 + n\<rparr>)"
    using p by (intro waitShortPull_hit) simp_all
  then show ?thesis by (simp add: lowDamp_Continue[OF reach w])
qed

lemma lowDamp_total:
  assumes reach: "currentArray s ! 3 \<le> dst"
  shows
  "trace (lowDampArmed s) = trace s @ (if lastRemoteIp s \<noteq> 0
           then [Sent (lastRemoteIp s) (lastRemotePort s) ''LowDamp''] else []) @ [Servo Weak]
    \<and> brake (lowDampArmed s) = Weak
    \<and> prefix (trace (lowDampArmed s)) (trace (final (lowDampStage e h dst s)))
    \<and> ((\<forall>j \<le> h - clock s. \<not> arrivesAny e [''OK1'', ''Continue''] (polls e j (lowDampArmed s))) \<longrightarrow>
          lowDampStage e h dst s = Blocked (polled e (polls e (h - clock s) (lowDampArmed s))))
    \<and> (\<forall>k. arrivesAny e [''OK1'', ''Continue''] (polls e k (lowDampArmed s))
            \<and> (\<forall>j<k. \<not> arrivesAny e [''OK1'', ''Continue''] (polls e j (lowDampArmed s)))
            \<and> (k = 0 \<or> clock s + k \<le> h) \<longrightarrow>
         (let m = heard e (polls e k (lowDampArmed s)); s4 = polled e (polls e k (lowDampArmed s)) in
           (m = ''OK1'' \<or> m = ''Continue'')
           \<and> (m = ''OK1'' \<longrightarrow>
                 lowDampStage e h dst s = Done (servoBrakeRelease s4)
                 \<and> brake (servoBrakeRelease s4) = Released
                 \<and> trace (servoBrakeRelease s4) = trace s4 @ [Servo Released])
           \<and> (m = ''Continue'' \<longrightarrow>
                 ((\<forall>j \<le> h - clock s4. \<not> pulled e s4 j) \<longrightarrow>
                    lowDampStage e h dst s =
                      Blocked (s4\<lparr>encPos := encPos s4 + (h - clock s4) + 2,
                                  clock := clock s4 + (h - clock s4)\<rparr>))
                 \<and> (\<forall>n. pulled e s4 n \<and> (\<forall>j<n. \<not> pulled e s4 j)
                         \<and> (n = 0 \<or> clock s4 + n \<le> h) \<longrightarrow>
                      (let sK = sendUDPMessageToLast ''Keep''
                                  (s4\<lparr>encPos := encPos s4 + n + 2, clock := clock s4 + n\<rparr>) in
                         trace sK = trace s4 @ (if lastRemoteIp s4 \<noteq> 0
                             then [Sent (lastRemoteIp s4) (lastRemotePort s4) ''Keep''] else [])
                         \<and> ((\<forall>j \<le> h - clock sK. \<not> arrives e ''OK2'' (polls e j sK)) \<longrightarrow>
                               lowDampStage e h dst s = Blocked (polled e (polls e (h - clock sK) sK)))
                         \<and> (\<forall>i. arrives e ''OK2'' (polls e i sK)
                                 \<and> (\<forall>j<i. \<not> arrives e ''OK2'' (polls e j sK))
                                 \<and> (i = 0 \<or> clock sK + i \<le> h) \<longrightarrow>
                               lowDampStage e h dst s = Done (servoBrakeRelease (polled e (polls e i sK)))
                               \<and> brake (servoBrakeRelease (polled e (polls e i sK))) = Released))))))"
  unfolding Let_def
proof (intro conjI allI impI)
  show "trace (lowDampArmed s) = trace s @ (if lastRemoteIp s \<noteq> 0
        then [Sent (lastRemoteIp s) (lastRemotePort s) ''LowDamp''] else []) @ [Servo Weak]"
    unfolding lowDampArmed_def by (rule lowDamp_armed)
  show "brake (lowDampArmed s) = Weak" unfolding lowDampArmed_def by (rule lowDamp_armed)
  show "prefix (trace (lowDampArmed s)) (trace (final (lowDampStage e h dst s)))"
    unfolding lowDampArmed_def by (rule lowDamp_prefix[OF reach])
next
  assume "\<forall>j \<le> h - clock s. \<not> arrivesAny e [''OK1'', ''Continue''] (polls e j (lowDampArmed s))"
  then show "lowDampStage e h dst s = Blocked (polled e (polls e (h - clock s) (lowDampArmed s)))"
    by (rule lowDamp_wait_miss[OF reach])
next
  fix k
  let ?m = "heard e (polls e k (lowDampArmed s))" and ?s4 = "polled e (polls e k (lowDampArmed s))"
  assume a: "arrivesAny e [''OK1'', ''Continue''] (polls e k (lowDampArmed s))
         \<and> (\<forall>j<k. \<not> arrivesAny e [''OK1'', ''Continue''] (polls e j (lowDampArmed s)))
         \<and> (k = 0 \<or> clock s + k \<le> h)"
  then have w: "waitForCmdAny e h [''OK1'', ''Continue''] (lowDampArmed s) = Done (?m, ?s4)"
    by (intro lowDamp_wait_hit) simp_all
  show "?m = ''OK1'' \<or> ?m = ''Continue''"
    using a arrivesAny_heard[of e "[''OK1'', ''Continue'']" "polls e k (lowDampArmed s)"] by auto
  show "brake (servoBrakeRelease ?s4) = Released" by simp
  show "trace (servoBrakeRelease ?s4) = trace ?s4 @ [Servo Released]" by simp
  {
    assume "?m = ''OK1''"
    then show "lowDampStage e h dst s = Done (servoBrakeRelease ?s4)"
      using w by (simp add: lowDamp_OK1[OF reach])
  }
  {
    assume m: "?m = ''Continue''" and p: "\<forall>j \<le> h - clock ?s4. \<not> pulled e ?s4 j"
    have "waitShortPull e h ?s4 =
            Blocked (?s4\<lparr>encPos := encPos ?s4 + (h - clock ?s4) + 2,
                        clock := clock ?s4 + (h - clock ?s4)\<rparr>)"
      using p by (rule waitShortPull_miss)
    then show "lowDampStage e h dst s =
                 Blocked (?s4\<lparr>encPos := encPos ?s4 + (h - clock ?s4) + 2,
                             clock := clock ?s4 + (h - clock ?s4)\<rparr>)"
      using w m by (simp add: lowDamp_Continue[OF reach])
  }
  {
    fix n
    let ?sK = "sendUDPMessageToLast ''Keep'' (?s4\<lparr>encPos := encPos ?s4 + n + 2, clock := clock ?s4 + n\<rparr>)"
    assume m: "?m = ''Continue''"
      and p: "pulled e ?s4 n \<and> (\<forall>j<n. \<not> pulled e ?s4 j) \<and> (n = 0 \<or> clock ?s4 + n \<le> h)"
    have st: "lowDampStage e h dst s =
                andThen (waitForCmd e h ''OK2'' ?sK) (\<lambda>s. Done (servoBrakeRelease s))"
      using w m p by (intro lowDamp_keep[OF reach]) simp_all
    show "trace ?sK = trace ?s4 @ (if lastRemoteIp ?s4 \<noteq> 0
                          then [Sent (lastRemoteIp ?s4) (lastRemotePort ?s4) ''Keep''] else [])"
      by simp
    {
      assume "\<forall>j \<le> h - clock ?sK. \<not> arrives e ''OK2'' (polls e j ?sK)"
      then have "waitForCmd e h ''OK2'' ?sK = Blocked (polled e (polls e (h - clock ?sK) ?sK))"
        by (rule waitForCmd_miss)
      then show "lowDampStage e h dst s = Blocked (polled e (polls e (h - clock ?sK) ?sK))"
        by (simp add: st)
    }
    {
      fix i
      assume o: "arrives e ''OK2'' (polls e i ?sK)
                              \<and> (\<forall>j<i. \<not> arrives e ''OK2'' (polls e j ?sK))
                              \<and> (i = 0 \<or> clock ?sK + i \<le> h)"
      then have "waitForCmd e h ''OK2'' ?sK = Done (polled e (polls e i ?sK))"
        by (intro waitForCmd_hit) auto
      then show "lowDampStage e h dst s = Done (servoBrakeRelease (polled e (polls e i ?sK)))"
        by (simp add: st)
      show "brake (servoBrakeRelease (polled e (polls e i ?sK))) = Released" by simp
    }
  }
qed

section \<open>The claims\<close>

text \<open>
  C1, as the code has it. In a tick with \<open>sequenceRunning\<close> true and a reading of at least
  \<open>currentArray[0]\<close>, the first thing the tick does is send the text \<^verbatim>\<open>Pain\<close> to the last
  remote endpoint (\<^verbatim>\<open>sendUDPMessageToLast\<close>: nothing goes out while no endpoint is recorded);
  this holds whether the tick returns or blocks in a later wait. With profile
  [10,20,30,40], readings 5, 12, 22, 32, 42 in five rounds of \<^verbatim>\<open>loop()\<close> and the replies
  \<^verbatim>\<open>OK\<close>, \<^verbatim>\<open>OK\<close>, \<^verbatim>\<open>OK1\<close>, the run returns with the trace below: every notification whose threshold is crossed is sent again in
  each tick, and the notifications first appear in the order \<^verbatim>\<open>Pain\<close>, \<^verbatim>\<open>Pain2\<close>,
  \<^verbatim>\<open>HighDamp\<close>, \<^verbatim>\<open>LowDamp\<close>.
\<close>

theorem pain_sent:
  "(sequenceRunning s \<and> currentArray s ! 0 \<le> enc e (encPos s) \<longrightarrow>
      prefix (trace s @ (if lastRemoteIp s \<noteq> 0
                         then [Sent (lastRemoteIp s) (lastRemotePort s) ''Pain''] else []))
        (trace (final (processEncoderEvents e h s))))
   \<and> returned (run demo_env 9 5 demo_state)
   \<and> trace (final (run demo_env 9 5 demo_state)) =
       [Sent 7 9 ''Pain'',
        Sent 7 9 ''Pain'', Sent 7 9 ''Pain2'',
        Sent 7 9 ''Pain'', Sent 7 9 ''Pain2'', Sent 7 9 ''HighDamp'', Servo Locked, Recv 7 9,
        Servo Released,
        Sent 7 9 ''Pain'', Sent 7 9 ''Pain2'', Sent 7 9 ''HighDamp'', Servo Locked, Recv 7 9,
        Servo Released, Sent 7 9 ''LowDamp'', Servo Weak, Recv 7 9, Servo Released]"
proof (intro conjI)
  show "sequenceRunning s \<and> currentArray s ! 0 \<le> enc e (encPos s) \<longrightarrow>
      prefix (trace s @ (if lastRemoteIp s \<noteq> 0
                         then [Sent (lastRemoteIp s) (lastRemotePort s) ''Pain''] else []))
        (trace (final (processEncoderEvents e h s)))"
    using pain_first by blast
  show "returned (run demo_env 9 5 demo_state)"
    by (simp add: demo_env_def demo_state_def eval_defs)
  show "trace (final (run demo_env 9 5 demo_state)) =
       [Sent 7 9 ''Pain'',
        Sent 7 9 ''Pain'', Sent 7 9 ''Pain2'',
        Sent 7 9 ''Pain'', Sent 7 9 ''Pain2'', Sent 7 9 ''HighDamp'', Servo Locked, Recv 7 9,
        Servo Released,
        Sent 7 9 ''Pain'', Sent 7 9 ''Pain2'', Sent 7 9 ''HighDamp'', Servo Locked, Recv 7 9,
        Servo Released, Sent 7 9 ''LowDamp'', Servo Weak, Recv 7 9, Servo Released]"
    by (simp add: demo_env_def demo_state_def eval_defs)
qed

theorem pain_sent_witness:
  "sequenceRunning demo_state
   \<and> currentArray demo_state ! 0 \<le> enc pain_env (encPos demo_state)
   \<and> prefix (trace demo_state @ [Sent 7 9 ''Pain''])
        (trace (final (processEncoderEvents pain_env 3 demo_state)))"
proof -
  have a: "sequenceRunning demo_state
           \<and> currentArray demo_state ! 0 \<le> enc pain_env (encPos demo_state)"
    by (simp add: demo_state_def init_state_def pain_env_def)
  have l: "lastRemoteIp demo_state = 7" "lastRemotePort demo_state = 9"
    by (simp_all add: demo_state_def)
  show ?thesis
    using pain_sent[of demo_state pain_env 3, THEN conjunct1] a by (simp add: l)
qed

theorem pain_text_counterexample:
  "sequenceRunning demo_state
   \<and> currentArray demo_state ! 0 \<le> enc pain_env (encPos demo_state)
   \<and> returned (processEncoderEvents pain_env 0 demo_state)
   \<and> trace (final (processEncoderEvents pain_env 0 demo_state)) = [Sent 7 9 ''Pain'']
   \<and> Sent 7 9 ''Pain1'' \<notin> set (trace (final (processEncoderEvents pain_env 0 demo_state)))"
  by (simp add: demo_state_def pain_env_def eval_defs)

text \<open>
  C2, as the code has it. A datagram that the dispatcher \<^verbatim>\<open>handleUDPMessages\<close> takes from a
  sender with a non-zero address is answered by exactly two datagrams to that sender: the
  text the poll yielded, then \<^verbatim>\<open>ACK: \<close> followed by that text. A datagram consumed by
  \<^verbatim>\<open>waitForCmd\<close> or \<^verbatim>\<open>waitForCmdAny\<close> is answered by nothing: the waits send no datagram,
  whether they return or stay blocked.
\<close>

theorem echo_ack_dispatch:
  "(packetSize (net e (netPos s)) \<noteq> 0 \<and> remoteIP (net e (netPos s)) \<noteq> 0 \<longrightarrow>
      sends (trace (handleUDPMessages e s)) =
        sends (trace s) @ [(remoteIP (net e (netPos s)), remotePort (net e (netPos s)), heard e s),
                           (remoteIP (net e (netPos s)), remotePort (net e (netPos s)),
                            ''ACK: '' @ heard e s)])
   \<and> sends (trace (final (waitForCmd e h t s))) = sends (trace s)
   \<and> (case waitForCmdAny e h ts s of Done (m, s') \<Rightarrow> sends (trace s') = sends (trace s)
       | Blocked s' \<Rightarrow> sends (trace s') = sends (trace s))"
  by (simp add: handle_sends sends_waitForCmd sends_waitForCmdAny)

theorem echo_ack_dispatch_witness:
  "packetSize (net hello_env (netPos init_state)) \<noteq> 0
   \<and> remoteIP (net hello_env (netPos init_state)) \<noteq> 0
   \<and> sends (trace (handleUDPMessages hello_env init_state))
       = [(7, 9, ''hello''), (7, 9, ''ACK: hello'')]"
proof -
  have a: "packetSize (net hello_env (netPos init_state)) \<noteq> 0
           \<and> remoteIP (net hello_env (netPos init_state)) \<noteq> 0"
    by (simp add: buf_init hello_env_def feed_def pkt_def)
  have p: "remoteIP (net hello_env (netPos init_state)) = 7"
          "remotePort (net hello_env (netPos init_state)) = 9"
    by (simp_all add: buf_init hello_env_def feed_def pkt_def)
  have t: "trace init_state = []" by (simp add: init_state_def)
  from echo_ack_dispatch[of hello_env init_state 0 "''OK''" "[]"] a
  have "sends (trace (handleUDPMessages hello_env init_state)) =
        sends (trace init_state) @ [(remoteIP (net hello_env (netPos init_state)),
           remotePort (net hello_env (netPos init_state)), heard hello_env init_state),
          (remoteIP (net hello_env (netPos init_state)),
           remotePort (net hello_env (netPos init_state)), ''ACK: '' @ heard hello_env init_state)]"
    by blast
  then show ?thesis using a by (simp add: p t hello_heard)
qed

theorem echo_ack_counterexample:
  "packetSize (net ack_env (netPos init_state)) \<noteq> 0
   \<and> waitForCmd ack_env 0 ''OK'' init_state = Done (polled ack_env init_state)
   \<and> trace (polled ack_env init_state) = [Recv 7 9]
   \<and> sends (trace (polled ack_env init_state)) = []"
proof -
  have a: "packetSize (net ack_env (netPos init_state)) \<noteq> 0"
    by (simp add: buf_init ack_env_def feed_def pkt_def)
  have "arrives ack_env ''OK'' (polls ack_env 0 init_state)"
    using arrives_polls[of init_state ack_env 0 "''OK''"]
    by (simp add: buf_init ack_env_def feed_def pkt_def trim_def cstring_def isspace_def NUL_def
          del: polls.simps)
  then have w: "waitForCmd ack_env 0 ''OK'' init_state = Done (polled ack_env init_state)"
    using waitForCmd_hit[of ack_env "''OK''" 0 init_state 0] by simp
  have t: "trace (polled ack_env init_state) = [Recv 7 9]"
    using polled_frame(1)[OF a]
    by (simp add: buf_init ack_env_def feed_def pkt_def) (simp add: init_state_def)
  show ?thesis using a w t by simp
qed

text \<open>
  C3. \<^verbatim>\<open>waitForCmd\<close> returns only on a datagram whose text, trimmed, is the target: when it
  returns, the matching poll is the first one that matches, every poll before it was
  discarded, and the state is the state right after that poll. When no poll ever matches,
  the wait is still blocked at every horizon (there is no timeout). When some poll
  matches, the wait returns at every horizon that is long enough.
\<close>

theorem waitForCmd_exact:
  "(waitForCmd e h target s = Done s' \<longrightarrow>
      (\<exists>k. arrives e target (polls e k s) \<and> (\<forall>j<k. \<not> arrives e target (polls e j s))
           \<and> s' = polled e (polls e k s)))
   \<and> ((\<forall>k. \<not> arrives e target (polls e k s)) \<longrightarrow>
        waitForCmd e h target s = Blocked (polled e (polls e (h - clock s) s)))
   \<and> ((\<exists>k. arrives e target (polls e k s)) \<longrightarrow>
        (\<exists>h'. \<forall>h \<ge> h'. returned (waitForCmd e h target s)))"
proof (intro conjI impI)
  assume "waitForCmd e h target s = Done s'"
  then show "\<exists>k. arrives e target (polls e k s) \<and> (\<forall>j<k. \<not> arrives e target (polls e j s))
           \<and> s' = polled e (polls e k s)"
    unfolding waitForCmd_Done_iff by blast
next
  assume "\<forall>k. \<not> arrives e target (polls e k s)"
  then show "waitForCmd e h target s = Blocked (polled e (polls e (h - clock s) s))"
    by (simp add: waitForCmd_miss)
next
  assume "\<exists>k. arrives e target (polls e k s)"
  then obtain j where j: "arrives e target (polls e j s)" by blast
  define k where "k = (LEAST j. arrives e target (polls e j s))"
  have ak: "arrives e target (polls e k s)" unfolding k_def using j by (rule LeastI)
  have least: "\<forall>i<k. \<not> arrives e target (polls e i s)"
    unfolding k_def using not_less_Least by blast
  have "\<forall>h \<ge> clock s + k. returned (waitForCmd e h target s)"
    using waitForCmd_hit[OF ak least] by simp
  then show "\<exists>h'. \<forall>h \<ge> h'. returned (waitForCmd e h target s)" by blast
qed

theorem waitForCmd_exact_witness:
  "waitForCmd decoys 9 ''OK'' init_state = Done (polled decoys (polls decoys 4 init_state))
   \<and> (\<exists>k. arrives decoys ''OK'' (polls decoys k init_state)
          \<and> (\<forall>j<k. \<not> arrives decoys ''OK'' (polls decoys j init_state))
          \<and> polled decoys (polls decoys 4 init_state) = polled decoys (polls decoys k init_state))
   \<and> (\<forall>k. \<not> arrives quiet ''OK'' (polls quiet k init_state))
   \<and> waitForCmd quiet 9 ''OK'' init_state = Blocked (polled quiet (polls quiet 9 init_state))
   \<and> (\<exists>h'. \<forall>h \<ge> h'. returned (waitForCmd decoys h ''OK'' init_state))"
proof -
  have before: "\<forall>j<4. \<not> arrives decoys ''OK'' (polls decoys j init_state)"
  proof (intro allI impI)
    fix j :: nat assume "j < 4"
    then have "j = 0 \<or> j = 1 \<or> j = 2 \<or> j = 3" by arith
    then show "\<not> arrives decoys ''OK'' (polls decoys j init_state)"
      using decoys_arrives(1-4) by (elim disjE) (simp_all only: simp_thms)
  qed
  have d: "waitForCmd decoys 9 ''OK'' init_state = Done (polled decoys (polls decoys 4 init_state))"
    using decoys_arrives(5) before by (rule waitForCmd_hit) (simp add: buf_init)
  have q: "\<forall>k. \<not> arrives quiet ''OK'' (polls quiet k init_state)"
    using arrives_polls[of init_state quiet _ "''OK''"]
    by (simp add: buf_init quiet_def nopkt_def del: polls.simps)
  note T = waitForCmd_exact[of decoys 9 "''OK''" init_state "polled decoys (polls decoys 4 init_state)"]
  note Q = waitForCmd_exact[of quiet 9 "''OK''" init_state]
  have 1: "\<exists>k. arrives decoys ''OK'' (polls decoys k init_state)
          \<and> (\<forall>j<k. \<not> arrives decoys ''OK'' (polls decoys j init_state))
          \<and> polled decoys (polls decoys 4 init_state) = polled decoys (polls decoys k init_state)"
    using T d by blast
  have 2: "waitForCmd quiet 9 ''OK'' init_state = Blocked (polled quiet (polls quiet 9 init_state))"
    using Q q by (simp add: buf_init)
  have 3: "\<exists>h'. \<forall>h \<ge> h'. returned (waitForCmd decoys h ''OK'' init_state)"
    using T decoys_arrives(5) by blast
  show ?thesis using d 1 q 2 3 by blast
qed

text \<open>
  C4, as the code has it. A tick with \<open>sequenceRunning\<close> true and a reading of at least
  \<open>currentArray[3]\<close>, the reading being \<open>dst\<close> and \<open>s2\<close> the state after the two pain stages.

  The third stage comes first. Below \<open>currentArray[2]\<close> it is skipped. Otherwise it waits
  for \<^verbatim>\<open>OK\<close>: it returns at the first poll that yields \<^verbatim>\<open>OK\<close>, and while none does the
  tick is blocked there and nothing is sent after \<^verbatim>\<open>HighDamp\<close>.

  When the third stage is over, in state \<open>s3\<close>, the tick sends \<^verbatim>\<open>LowDamp\<close> (to the last
  endpoint, when one is recorded) and sets the brake to \<open>Weak\<close>; this is a prefix of the
  trace whatever follows. It then waits for \<^verbatim>\<open>OK1\<close> or \<^verbatim>\<open>Continue\<close>: while no poll yields
  either, the tick is blocked; the first poll that yields one ends the wait. On \<^verbatim>\<open>OK1\<close> the
  tick returns with the brake \<open>Released\<close>. On \<^verbatim>\<open>Continue\<close> the tick takes a reading and polls
  the encoder until a reading is at least the double that this reading plus 0.5 yields
  (\<open>pulled\<close>): while none is, the tick is blocked and \<^verbatim>\<open>Keep\<close> is not sent; at the first one
  it sends \<^verbatim>\<open>Keep\<close> and waits for \<^verbatim>\<open>OK2\<close>, blocked while no poll yields it, and at the first
  poll that does it returns with the brake \<open>Released\<close>.
\<close>

theorem lowDamp_in_tick:
  fixes e :: env and h :: nat and s :: state
  defines "dst \<equiv> enc e (encPos s)" and "s2 \<equiv> painStage e s"
  assumes run: "sequenceRunning s" and reach: "currentArray s ! 3 \<le> dst"
  shows
  "(dst < currentArray s ! 2 \<longrightarrow> highDampStage e h dst s2 = Done s2)
   \<and> (currentArray s ! 2 \<le> dst \<longrightarrow>
        (\<forall>k. arrives e ''OK'' (polls e k (highDampArmed s2))
             \<and> (\<forall>j<k. \<not> arrives e ''OK'' (polls e j (highDampArmed s2)))
             \<and> (k = 0 \<or> clock s2 + k \<le> h) \<longrightarrow>
           highDampStage e h dst s2
             = Done (servoBrakeRelease (polled e (polls e k (highDampArmed s2)))))
        \<and> ((\<forall>j \<le> h - clock s2. \<not> arrives e ''OK'' (polls e j (highDampArmed s2))) \<longrightarrow>
             processEncoderEvents e h s
               = Blocked (polled e (polls e (h - clock s2) (highDampArmed s2)))
             \<and> sends (trace (final (processEncoderEvents e h s)))
                 = sends (trace (highDampArmed s2))))
   \<and> (\<forall>s3. highDampStage e h dst s2 = Done s3 \<longrightarrow>
        trace (lowDampArmed s3) = trace s3 @ (if lastRemoteIp s3 \<noteq> 0
                then [Sent (lastRemoteIp s3) (lastRemotePort s3) ''LowDamp''] else []) @ [Servo Weak]
         \<and> brake (lowDampArmed s3) = Weak
         \<and> prefix (trace (lowDampArmed s3)) (trace (final (processEncoderEvents e h s)))
         \<and> ((\<forall>j \<le> h - clock s3. \<not> arrivesAny e [''OK1'', ''Continue''] (polls e j (lowDampArmed s3))) \<longrightarrow>
               processEncoderEvents e h s = Blocked (polled e (polls e (h - clock s3) (lowDampArmed s3))))
         \<and> (\<forall>k. arrivesAny e [''OK1'', ''Continue''] (polls e k (lowDampArmed s3))
                 \<and> (\<forall>j<k. \<not> arrivesAny e [''OK1'', ''Continue''] (polls e j (lowDampArmed s3)))
                 \<and> (k = 0 \<or> clock s3 + k \<le> h) \<longrightarrow>
              (let m = heard e (polls e k (lowDampArmed s3)); s4 = polled e (polls e k (lowDampArmed s3)) in
                (m = ''OK1'' \<or> m = ''Continue'')
                \<and> (m = ''OK1'' \<longrightarrow>
                      processEncoderEvents e h s = Done (servoBrakeRelease s4)
                      \<and> brake (servoBrakeRelease s4) = Released
                      \<and> trace (servoBrakeRelease s4) = trace s4 @ [Servo Released])
                \<and> (m = ''Continue'' \<longrightarrow>
                      ((\<forall>j \<le> h - clock s4. \<not> pulled e s4 j) \<longrightarrow>
                         processEncoderEvents e h s =
                           Blocked (s4\<lparr>encPos := encPos s4 + (h - clock s4) + 2,
                                       clock := clock s4 + (h - clock s4)\<rparr>))
                      \<and> (\<forall>n. pulled e s4 n \<and> (\<forall>j<n. \<not> pulled e s4 j)
                              \<and> (n = 0 \<or> clock s4 + n \<le> h) \<longrightarrow>
                           (let sK = sendUDPMessageToLast ''Keep''
                                       (s4\<lparr>encPos := encPos s4 + n + 2, clock := clock s4 + n\<rparr>) in
                              trace sK = trace s4 @ (if lastRemoteIp s4 \<noteq> 0
                                  then [Sent (lastRemoteIp s4) (lastRemotePort s4) ''Keep''] else [])
                              \<and> ((\<forall>j \<le> h - clock sK. \<not> arrives e ''OK2'' (polls e j sK)) \<longrightarrow>
                                    processEncoderEvents e h s = Blocked (polled e (polls e (h - clock sK) sK)))
                              \<and> (\<forall>i. arrives e ''OK2'' (polls e i sK)
                                      \<and> (\<forall>j<i. \<not> arrives e ''OK2'' (polls e j sK))
                                      \<and> (i = 0 \<or> clock sK + i \<le> h) \<longrightarrow>
                                    processEncoderEvents e h s = Done (servoBrakeRelease (polled e (polls e i sK)))
                                    \<and> brake (servoBrakeRelease (polled e (polls e i sK))) = Released)))))))"
proof -
  have eq: "processEncoderEvents e h s = andThen (highDampStage e h dst s2) (lowDampStage e h dst)"
    unfolding dst_def s2_def using run by (rule tick_split)
  have A: "dst < currentArray s ! 2 \<longrightarrow> highDampStage e h dst s2 = Done s2"
    by (simp add: highDamp_skip s2_def)
  have B: "currentArray s ! 2 \<le> dst \<longrightarrow>
        (\<forall>k. arrives e ''OK'' (polls e k (highDampArmed s2))
             \<and> (\<forall>j<k. \<not> arrives e ''OK'' (polls e j (highDampArmed s2)))
             \<and> (k = 0 \<or> clock s2 + k \<le> h) \<longrightarrow>
           highDampStage e h dst s2
             = Done (servoBrakeRelease (polled e (polls e k (highDampArmed s2)))))
        \<and> ((\<forall>j \<le> h - clock s2. \<not> arrives e ''OK'' (polls e j (highDampArmed s2))) \<longrightarrow>
             processEncoderEvents e h s
               = Blocked (polled e (polls e (h - clock s2) (highDampArmed s2)))
             \<and> sends (trace (final (processEncoderEvents e h s)))
                 = sends (trace (highDampArmed s2)))"
  proof (intro conjI allI impI)
    fix k
    assume "currentArray s ! 2 \<le> dst"
      and "arrives e ''OK'' (polls e k (highDampArmed s2))
             \<and> (\<forall>j<k. \<not> arrives e ''OK'' (polls e j (highDampArmed s2)))
             \<and> (k = 0 \<or> clock s2 + k \<le> h)"
    then show "highDampStage e h dst s2
             = Done (servoBrakeRelease (polled e (polls e k (highDampArmed s2))))"
      by (intro highDamp_hit) (simp_all add: s2_def)
  next
    assume t2: "currentArray s ! 2 \<le> dst"
      and no: "\<forall>j \<le> h - clock s2. \<not> arrives e ''OK'' (polls e j (highDampArmed s2))"
    have "highDampStage e h dst s2 = Blocked (polled e (polls e (h - clock s2) (highDampArmed s2)))"
      using no by (intro highDamp_miss) (simp_all add: s2_def t2)
    then show b: "processEncoderEvents e h s
               = Blocked (polled e (polls e (h - clock s2) (highDampArmed s2)))"
      by (simp add: eq)
    show "sends (trace (final (processEncoderEvents e h s))) = sends (trace (highDampArmed s2))"
      by (simp add: b sends_polled)
  qed
  have C: "\<forall>s3. highDampStage e h dst s2 = Done s3 \<longrightarrow>
        trace (lowDampArmed s3) = trace s3 @ (if lastRemoteIp s3 \<noteq> 0
                then [Sent (lastRemoteIp s3) (lastRemotePort s3) ''LowDamp''] else []) @ [Servo Weak]
         \<and> brake (lowDampArmed s3) = Weak
         \<and> prefix (trace (lowDampArmed s3)) (trace (final (processEncoderEvents e h s)))
         \<and> ((\<forall>j \<le> h - clock s3. \<not> arrivesAny e [''OK1'', ''Continue''] (polls e j (lowDampArmed s3))) \<longrightarrow>
               processEncoderEvents e h s = Blocked (polled e (polls e (h - clock s3) (lowDampArmed s3))))
         \<and> (\<forall>k. arrivesAny e [''OK1'', ''Continue''] (polls e k (lowDampArmed s3))
                 \<and> (\<forall>j<k. \<not> arrivesAny e [''OK1'', ''Continue''] (polls e j (lowDampArmed s3)))
                 \<and> (k = 0 \<or> clock s3 + k \<le> h) \<longrightarrow>
              (let m = heard e (polls e k (lowDampArmed s3)); s4 = polled e (polls e k (lowDampArmed s3)) in
                (m = ''OK1'' \<or> m = ''Continue'')
                \<and> (m = ''OK1'' \<longrightarrow>
                      processEncoderEvents e h s = Done (servoBrakeRelease s4)
                      \<and> brake (servoBrakeRelease s4) = Released
                      \<and> trace (servoBrakeRelease s4) = trace s4 @ [Servo Released])
                \<and> (m = ''Continue'' \<longrightarrow>
                      ((\<forall>j \<le> h - clock s4. \<not> pulled e s4 j) \<longrightarrow>
                         processEncoderEvents e h s =
                           Blocked (s4\<lparr>encPos := encPos s4 + (h - clock s4) + 2,
                                       clock := clock s4 + (h - clock s4)\<rparr>))
                      \<and> (\<forall>n. pulled e s4 n \<and> (\<forall>j<n. \<not> pulled e s4 j)
                              \<and> (n = 0 \<or> clock s4 + n \<le> h) \<longrightarrow>
                           (let sK = sendUDPMessageToLast ''Keep''
                                       (s4\<lparr>encPos := encPos s4 + n + 2, clock := clock s4 + n\<rparr>) in
                              trace sK = trace s4 @ (if lastRemoteIp s4 \<noteq> 0
                                  then [Sent (lastRemoteIp s4) (lastRemotePort s4) ''Keep''] else [])
                              \<and> ((\<forall>j \<le> h - clock sK. \<not> arrives e ''OK2'' (polls e j sK)) \<longrightarrow>
                                    processEncoderEvents e h s = Blocked (polled e (polls e (h - clock sK) sK)))
                              \<and> (\<forall>i. arrives e ''OK2'' (polls e i sK)
                                      \<and> (\<forall>j<i. \<not> arrives e ''OK2'' (polls e j sK))
                                      \<and> (i = 0 \<or> clock sK + i \<le> h) \<longrightarrow>
                                    processEncoderEvents e h s = Done (servoBrakeRelease (polled e (polls e i sK)))
                                    \<and> brake (servoBrakeRelease (polled e (polls e i sK))) = Released))))))"
  proof (rule allI, rule impI)
    fix s3
    assume d: "highDampStage e h dst s2 = Done s3"
    have eq3: "processEncoderEvents e h s = lowDampStage e h dst s3" by (simp add: eq d)
    have reach3: "currentArray s3 ! 3 \<le> dst"
      using highDamp_currentArray[OF d] reach by (simp add: s2_def)
    show
    "trace (lowDampArmed s3) = trace s3 @ (if lastRemoteIp s3 \<noteq> 0
           then [Sent (lastRemoteIp s3) (lastRemotePort s3) ''LowDamp''] else []) @ [Servo Weak]
    \<and> brake (lowDampArmed s3) = Weak
    \<and> prefix (trace (lowDampArmed s3)) (trace (final (processEncoderEvents e h s)))
    \<and> ((\<forall>j \<le> h - clock s3. \<not> arrivesAny e [''OK1'', ''Continue''] (polls e j (lowDampArmed s3))) \<longrightarrow>
          processEncoderEvents e h s = Blocked (polled e (polls e (h - clock s3) (lowDampArmed s3))))
    \<and> (\<forall>k. arrivesAny e [''OK1'', ''Continue''] (polls e k (lowDampArmed s3))
            \<and> (\<forall>j<k. \<not> arrivesAny e [''OK1'', ''Continue''] (polls e j (lowDampArmed s3)))
            \<and> (k = 0 \<or> clock s3 + k \<le> h) \<longrightarrow>
         (let m = heard e (polls e k (lowDampArmed s3)); s4 = polled e (polls e k (lowDampArmed s3)) in
           (m = ''OK1'' \<or> m = ''Continue'')
           \<and> (m = ''OK1'' \<longrightarrow>
                 processEncoderEvents e h s = Done (servoBrakeRelease s4)
                 \<and> brake (servoBrakeRelease s4) = Released
                 \<and> trace (servoBrakeRelease s4) = trace s4 @ [Servo Released])
           \<and> (m = ''Continue'' \<longrightarrow>
                 ((\<forall>j \<le> h - clock s4. \<not> pulled e s4 j) \<longrightarrow>
                    processEncoderEvents e h s =
                      Blocked (s4\<lparr>encPos := encPos s4 + (h - clock s4) + 2,
                                  clock := clock s4 + (h - clock s4)\<rparr>))
                 \<and> (\<forall>n. pulled e s4 n \<and> (\<forall>j<n. \<not> pulled e s4 j)
                         \<and> (n = 0 \<or> clock s4 + n \<le> h) \<longrightarrow>
                      (let sK = sendUDPMessageToLast ''Keep''
                                  (s4\<lparr>encPos := encPos s4 + n + 2, clock := clock s4 + n\<rparr>) in
                         trace sK = trace s4 @ (if lastRemoteIp s4 \<noteq> 0
                             then [Sent (lastRemoteIp s4) (lastRemotePort s4) ''Keep''] else [])
                         \<and> ((\<forall>j \<le> h - clock sK. \<not> arrives e ''OK2'' (polls e j sK)) \<longrightarrow>
                               processEncoderEvents e h s = Blocked (polled e (polls e (h - clock sK) sK)))
                         \<and> (\<forall>i. arrives e ''OK2'' (polls e i sK)
                                 \<and> (\<forall>j<i. \<not> arrives e ''OK2'' (polls e j sK))
                                 \<and> (i = 0 \<or> clock sK + i \<le> h) \<longrightarrow>
                               processEncoderEvents e h s = Done (servoBrakeRelease (polled e (polls e i sK)))
                               \<and> brake (servoBrakeRelease (polled e (polls e i sK))) = Released))))))"
      unfolding eq3 by (rule lowDamp_total[OF reach3])
  qed
  show ?thesis by (rule conjI[OF A conjI[OF B C]])
qed

theorem lowDamp_in_tick_witness:
  "sequenceRunning demo_state
   \<and> currentArray demo_state ! 3 \<le> enc tick_env (encPos demo_state)
   \<and> returned (highDampStage tick_env 9 (enc tick_env (encPos demo_state))
                 (painStage tick_env demo_state))
   \<and> brake (lowDampArmed (final (highDampStage tick_env 9 (enc tick_env (encPos demo_state))
                 (painStage tick_env demo_state)))) = Weak
   \<and> prefix (trace (lowDampArmed (final (highDampStage tick_env 9
                 (enc tick_env (encPos demo_state)) (painStage tick_env demo_state)))))
        (trace (final (processEncoderEvents tick_env 9 demo_state)))
   \<and> returned (processEncoderEvents tick_env 9 demo_state)
   \<and> trace (final (processEncoderEvents tick_env 9 demo_state)) =
       [Sent 7 9 ''Pain'', Sent 7 9 ''Pain2'', Sent 7 9 ''HighDamp'', Servo Locked, Recv 7 9,
        Servo Released, Sent 7 9 ''LowDamp'', Servo Weak, Recv 7 9, Sent 7 9 ''Keep'', Recv 7 9,
        Servo Released]
   \<and> brake (final (processEncoderEvents tick_env 9 demo_state)) = Released"
proof -
  let ?hd = "highDampStage tick_env 9 (enc tick_env (encPos demo_state)) (painStage tick_env demo_state)"
  have a: "sequenceRunning demo_state" "currentArray demo_state ! 3 \<le> enc tick_env (encPos demo_state)"
    by (simp_all add: demo_state_def tick_env_def init_state_def feed_def)
  have r3: "returned ?hd"
    by (simp add: tick_env_def demo_state_def painStage_def eval_defs)
  then have d: "?hd = Done (final ?hd)" by (rule returned_final)
  note T = lowDamp_in_tick[where s = demo_state and e = tick_env and h = 9, OF a]
  from T have C: "\<forall>s3. ?hd = Done s3 \<longrightarrow>
       brake (lowDampArmed s3) = Weak
       \<and> prefix (trace (lowDampArmed s3)) (trace (final (processEncoderEvents tick_env 9 demo_state)))"
    by blast
  have w: "brake (lowDampArmed (final ?hd)) = Weak"
    "prefix (trace (lowDampArmed (final ?hd))) (trace (final (processEncoderEvents tick_env 9 demo_state)))"
    using C d by blast+
  have r: "returned (processEncoderEvents tick_env 9 demo_state)"
    by (simp add: tick_env_def demo_state_def eval_defs round_double_85)
  have t: "trace (final (processEncoderEvents tick_env 9 demo_state)) =
       [Sent 7 9 ''Pain'', Sent 7 9 ''Pain2'', Sent 7 9 ''HighDamp'', Servo Locked, Recv 7 9,
        Servo Released, Sent 7 9 ''LowDamp'', Servo Weak, Recv 7 9, Sent 7 9 ''Keep'', Recv 7 9,
        Servo Released]"
    by (simp add: tick_env_def demo_state_def eval_defs round_double_85)
  have b: "brake (final (processEncoderEvents tick_env 9 demo_state)) = Released"
    by (simp add: tick_env_def demo_state_def eval_defs round_double_85)
  show ?thesis using a r3 w r t b by simp
qed

theorem lowDamp_counterexample:
  "sequenceRunning demo_state
   \<and> currentArray demo_state ! 3 \<le> enc stuck_env (encPos demo_state)
   \<and> (\<forall>h. \<not> returned (processEncoderEvents stuck_env h demo_state))
   \<and> (\<forall>h. sends (trace (final (processEncoderEvents stuck_env h demo_state)))
             = [(7, 9, ''Pain''), (7, 9, ''Pain2''), (7, 9, ''HighDamp'')])
   \<and> enc tiny_env 1 < enc tiny_env 0 + 1 / 2
   \<and> (\<forall>h. returned (waitShortPull tiny_env h init_state))"
proof -
  let ?d = "enc stuck_env (encPos demo_state)"
  let ?s2 = "painStage stuck_env demo_state"
  have a: "sequenceRunning demo_state" "currentArray demo_state ! 3 \<le> ?d"
    by (simp_all add: demo_state_def stuck_env_def init_state_def)
  have t2: "currentArray ?s2 ! 2 \<le> ?d"
    by (simp add: demo_state_def stuck_env_def init_state_def)
  have no: "\<not> arrives stuck_env ''OK'' t" for t
    by (simp add: arrives_heard stuck_env_def nopkt_def)
  have blk: "processEncoderEvents stuck_env h demo_state
               = Blocked (polled stuck_env (polls stuck_env (h - clock ?s2) (highDampArmed ?s2)))" for h
    using highDamp_miss[OF t2, of h stuck_env] no
    by (simp add: tick_split[OF a(1)])
  have s: "sends (trace (highDampArmed ?s2)) = [(7, 9, ''Pain''), (7, 9, ''Pain2''), (7, 9, ''HighDamp'')]"
    by (simp add: highDampArmed_def painStage_def demo_state_def stuck_env_def eval_defs)
  have 1: "\<forall>h. \<not> returned (processEncoderEvents stuck_env h demo_state)"
    by (simp add: blk)
  have 2: "\<forall>h. sends (trace (final (processEncoderEvents stuck_env h demo_state)))
             = [(7, 9, ''Pain''), (7, 9, ''Pain2''), (7, 9, ''HighDamp'')]"
    by (simp add: blk sends_polled s)
  have 3: "enc tiny_env 1 < enc tiny_env 0 + 1 / 2"
    by (simp add: tiny_env_def feed_def)
  have "pulled tiny_env init_state 0"
    by (simp add: pulled_def tiny_env_def feed_def init_state_def round_double_tiny_sum)
  then have 4: "\<forall>h. returned (waitShortPull tiny_env h init_state)"
    using waitShortPull_hit[of tiny_env init_state 0] by simp
  show ?thesis using a 1 2 3 4 by simp
qed

text \<open>
  C5. With the bank and the active profile in shape (10 rows of 4, 4 entries),
  \<^verbatim>\<open>startEventSequence\<close> draws an index below 10 from \<^verbatim>\<open>random(0,10)\<close>, copies that row of
  the bank into \<open>currentArray\<close>, sets \<open>sequenceRunning\<close> and leaves the bank alone. A second
  start overwrites the profile: the state after two starts is the state after the second
  start alone (with the generator one draw further), so nothing of the first profile is
  left and a later tick behaves as after the second start alone. How the index is
  distributed is the generator's business, outside this model.
\<close>

theorem start_replaces_profile:
  "bank_shape (distanceArrays s) \<and> length (currentArray s) = 4 \<longrightarrow>
     picked e s < 10
     \<and> currentArray (startEventSequence e s) = distanceArrays s ! picked e s
     \<and> sequenceRunning (startEventSequence e s)
     \<and> distanceArrays (startEventSequence e s) = distanceArrays s
     \<and> startEventSequence e (startEventSequence e s)
         = startEventSequence e (s\<lparr>rngPos := rngPos s + 1\<rparr>)
     \<and> currentArray (startEventSequence e (startEventSequence e s))
         = distanceArrays s ! picked e (s\<lparr>rngPos := rngPos s + 1\<rparr>)
     \<and> processEncoderEvents e h (startEventSequence e (startEventSequence e s))
         = processEncoderEvents e h (startEventSequence e (s\<lparr>rngPos := rngPos s + 1\<rparr>))"
proof
  assume a: "bank_shape (distanceArrays s) \<and> length (currentArray s) = 4"
  then have 1: "startEventSequence e s =
           s\<lparr>rngPos := rngPos s + 1, currentArray := distanceArrays s ! picked e s,
             sequenceRunning := True\<rparr>"
    by (simp add: start_current)
  have p: "picked e s < 10" "picked e (s\<lparr>rngPos := rngPos s + 1\<rparr>) < 10" by (simp_all add: picked_def)
  have l: "length (distanceArrays s ! picked e s) = 4" using a p(1) by (simp add: bank_row)
  have 2: "startEventSequence e (startEventSequence e s) =
           s\<lparr>rngPos := rngPos s + 2,
             currentArray := distanceArrays s ! picked e (s\<lparr>rngPos := rngPos s + 1\<rparr>),
             sequenceRunning := True\<rparr>"
    unfolding 1 using a l by (subst start_current) (simp_all add: picked_def)
  have 3: "startEventSequence e (s\<lparr>rngPos := rngPos s + 1\<rparr>) =
           s\<lparr>rngPos := rngPos s + 2,
             currentArray := distanceArrays s ! picked e (s\<lparr>rngPos := rngPos s + 1\<rparr>),
             sequenceRunning := True\<rparr>"
    using a by (subst start_current) simp_all
  show "picked e s < 10
     \<and> currentArray (startEventSequence e s) = distanceArrays s ! picked e s
     \<and> sequenceRunning (startEventSequence e s)
     \<and> distanceArrays (startEventSequence e s) = distanceArrays s
     \<and> startEventSequence e (startEventSequence e s)
         = startEventSequence e (s\<lparr>rngPos := rngPos s + 1\<rparr>)
     \<and> currentArray (startEventSequence e (startEventSequence e s))
         = distanceArrays s ! picked e (s\<lparr>rngPos := rngPos s + 1\<rparr>)
     \<and> processEncoderEvents e h (startEventSequence e (startEventSequence e s))
         = processEncoderEvents e h (startEventSequence e (s\<lparr>rngPos := rngPos s + 1\<rparr>))"
  proof -
    have eq: "startEventSequence e (startEventSequence e s)
                = startEventSequence e (s\<lparr>rngPos := rngPos s + 1\<rparr>)"
      by (simp only: 2 3)
    have c2: "currentArray (startEventSequence e (startEventSequence e s))
                = distanceArrays s ! picked e (s\<lparr>rngPos := rngPos s + 1\<rparr>)"
      by (simp add: 2)
    have c1: "currentArray (startEventSequence e s) = distanceArrays s ! picked e s"
      "sequenceRunning (startEventSequence e s)"
      "distanceArrays (startEventSequence e s) = distanceArrays s"
      by (simp_all add: 1)
    show ?thesis using p(1) c1 c2 eq by (simp only: simp_thms)
  qed
qed

theorem start_replaces_profile_witness:
  "bank_shape (distanceArrays (init_state\<lparr>distanceArrays := bank10\<rparr>))
   \<and> length (currentArray (init_state\<lparr>distanceArrays := bank10\<rparr>)) = 4
   \<and> currentArray (startEventSequence pick_env (init_state\<lparr>distanceArrays := bank10\<rparr>))
       = [8, 18, 28, 38]
   \<and> currentArray (startEventSequence pick_env
        (startEventSequence pick_env (init_state\<lparr>distanceArrays := bank10\<rparr>)))
       = [12, 22, 32, 42]"
proof -
  let ?s = "init_state\<lparr>distanceArrays := bank10\<rparr>"
  have a: "bank_shape (distanceArrays ?s) \<and> length (currentArray ?s) = 4"
    by (simp add: bank_shape_def bank10_def init_state_def)
  have p: "picked pick_env ?s = 3" "picked pick_env (?s\<lparr>rngPos := rngPos ?s + 1\<rparr>) = 7"
    by (simp_all add: picked_def pick_env_def feed_def init_state_def)
  note T = start_replaces_profile[of ?s pick_env 0, rule_format, OF a]
  have b: "distanceArrays ?s ! 3 = [8, 18, 28, 38]" "distanceArrays ?s ! 7 = [12, 22, 32, 42]"
    by (simp_all add: bank10_def)
  have "currentArray (startEventSequence pick_env ?s) = distanceArrays ?s ! picked pick_env ?s"
    using T by (elim conjE)
  then have 1: "currentArray (startEventSequence pick_env ?s) = [8, 18, 28, 38]"
    by (simp only: p b)
  have "currentArray (startEventSequence pick_env (startEventSequence pick_env ?s))
          = distanceArrays ?s ! picked pick_env (?s\<lparr>rngPos := rngPos ?s + 1\<rparr>)"
    using T by (elim conjE)
  then have 2: "currentArray (startEventSequence pick_env (startEventSequence pick_env ?s)) = [12, 22, 32, 42]"
    by (simp only: p b)
  show ?thesis using a 1 2 by simp
qed



text \<open>
  C7. After \<^verbatim>\<open>setup()\<close> the bank holds exactly 10 profiles of 4 entries, entry 0 in [5,15),
  entry 1 in [15,25), entry 2 in [25,35), entry 3 in [35,45). No number of rounds of
  \<^verbatim>\<open>loop()\<close>, started in any state and whether the last round returned or is blocked in a
  wait, changes the bank.
\<close>

theorem bank_fixed:
  "length (distanceArrays (setup_main e)) = 10
   \<and> list_all in_ranges (distanceArrays (setup_main e))
   \<and> distanceArrays (final (run e h n s)) = distanceArrays s"
proof -
  have "stable e (\<lambda>t. distanceArrays t = distanceArrays s)" by (rule stable_bank)
  then have "distanceArrays (final (run e h n s)) = distanceArrays s"
    by (rule stable_run) simp
  then show ?thesis using setup_main_bank[of e] by simp
qed

text \<open>
  C8. Once \<open>sequenceRunning\<close> is true it stays true: through the dispatcher (whatever the
  datagram, \<^verbatim>\<open>Stop\<close> included), through a tick of the sequencer, and through any number of
  rounds of \<^verbatim>\<open>loop()\<close>, whether the last round returned or is blocked in a wait.
\<close>

theorem running_sticky:
  "sequenceRunning s \<Longrightarrow>
     sequenceRunning (handleUDPMessages e s)
     \<and> sequenceRunning (final (processEncoderEvents e h s))
     \<and> sequenceRunning (final (run e h n s))"
  by (simp add: stable_handleUDPMessages[OF stable_running]
        stable_processEncoderEvents[OF stable_running] stable_run[OF stable_running])

theorem running_sticky_witness:
  "sequenceRunning (init_state\<lparr>sequenceRunning := True\<rparr>)
   \<and> sequenceRunning (handleUDPMessages stop_env (init_state\<lparr>sequenceRunning := True\<rparr>))
   \<and> sequenceRunning (final (run stop_env 3 2 (init_state\<lparr>sequenceRunning := True\<rparr>)))"
  using running_sticky[of "init_state\<lparr>sequenceRunning := True\<rparr>" stop_env 3 2] by simp

text \<open>
  C9. When \<open>sequenceRunning\<close> is false a tick returns at once with the state as it was:
  no reading is taken, nothing is sent, the brake is not touched.
\<close>

theorem tick_idle_noop:
  "\<not> sequenceRunning s \<Longrightarrow> processEncoderEvents e h s = Done s"
  by (simp add: processEncoderEvents_def)

theorem tick_idle_noop_witness:
  "\<not> sequenceRunning init_state \<and> processEncoderEvents quiet 0 init_state = Done init_state"
  using tick_idle_noop[of init_state quiet 0] by (simp add: init_state_def)

text \<open>
  C10. A poll that reports a packet (\<open>packetSize \<noteq> 0\<close>) from which \<^verbatim>\<open>read\<close> delivers no
  byte returns true, records the sender as the remote endpoint and leaves the receive
  buffer as it was, so the text it yields is the text still in the buffer: the text of
  the earlier datagram that filled the buffer, not the empty string.
\<close>

theorem zero_read_residue:
  "packetSize (net e (netPos s)) \<noteq> 0 \<Longrightarrow> payload (net e (netPos s)) = [] \<Longrightarrow>
     readIncomingUDP e s =
       (True, trim (cstring (packetBuffer s)),
        s\<lparr>netPos := netPos s + 1,
          lastRemoteIp := remoteIP (net e (netPos s)),
          lastRemotePort := remotePort (net e (netPos s)),
          trace := trace s @ [Recv (remoteIP (net e (netPos s))) (remotePort (net e (netPos s)))]\<rparr>)
     \<and> (\<forall>s0. fst (readIncomingUDP e s0) \<and> packetBuffer s = packetBuffer (polled e s0)
            \<longrightarrow> heard e s = heard e s0)"
  by (simp add: heard_buffer) (simp add: heard_def readIncomingUDP_def Let_def)

theorem zero_read_residue_witness:
  "packetSize (net residue_env (netPos (polled residue_env init_state))) \<noteq> 0
   \<and> payload (net residue_env (netPos (polled residue_env init_state))) = []
   \<and> heard residue_env init_state = ''Start''
   \<and> readIncomingUDP residue_env (polled residue_env init_state)
       = (True, ''Start'', polled residue_env (polled residue_env init_state))
   \<and> endpoint (polled residue_env (polled residue_env init_state)) = (8, 5)"
proof -
  let ?s = "polled residue_env init_state"
  have n: "netPos ?s = 1" by (simp add: buf_init)
  have a: "packetSize (net residue_env (netPos ?s)) \<noteq> 0" "payload (net residue_env (netPos ?s)) = []"
    by (simp_all add: buf_init residue_env_def feed_def)
  have h0: "heard residue_env init_state = ''Start''"
    using heard_payload[of residue_env init_state]
    by (simp add: buf_init residue_env_def feed_def pkt_def trim_def cstring_def isspace_def NUL_def)
  have f: "fst (readIncomingUDP residue_env init_state)"
    by (simp add: readIncomingUDP_def Let_def buf_init residue_env_def feed_def pkt_def)
  note Z = zero_read_residue[OF a]
  have h1: "heard residue_env ?s = ''Start''" using Z f h0 by simp
  have g: "fst (readIncomingUDP residue_env ?s)"
    by (subst Z[THEN conjunct1]) simp
  have r: "readIncomingUDP residue_env ?s = (True, ''Start'', polled residue_env ?s)"
    using g h1 by (cases "readIncomingUDP residue_env ?s") (simp add: heard_def polled_def)
  have "endpoint (polled residue_env ?s)
          = (remoteIP (net residue_env (netPos ?s)), remotePort (net residue_env (netPos ?s)))"
    by (simp add: endpoint_def polled_def[of residue_env ?s] Z[THEN conjunct1])
  then have "endpoint (polled residue_env ?s) = (8, 5)"
    by (simp add: buf_init residue_env_def feed_def)
  then show ?thesis using a h0 r by simp
qed

end
